theory Spec2Isabelle
  imports Complex_Main
begin

section \<open>Errors\<close>

text \<open>
  The exceptions of the Python source are values. \<open>EmbeddingFailure\<close> stands for any
  exception raised by \<open>self.model.encode\<close>; \<open>ValueError\<close> is Python's \<open>ValueError\<close>
  with its message (raised by \<open>add_knowledge_edge\<close> for an unknown entity, and by numpy
  for misaligned shapes or an empty reduction); \<open>IntegrityError\<close> is raised by the
  commit of a row that violates a column constraint.
\<close>

datatype error = EmbeddingFailure | ValueError string | IntegrityError

section \<open>Floating-point results\<close>

text \<open>
  Embedding vectors are lists of reals and their arithmetic is exact, where the source
  computes in 32-bit floating point: rounding and overflow are outside the model. What
  the model keeps of IEEE arithmetic are the special values that numpy's division
  produces instead of raising: \<open>x / 0\<close> is \<open>nan\<close> for \<open>x = 0\<close> and an infinity
  otherwise. The theorems below state about scores only what rounding cannot change:
  the value returned without any arithmetic, the quotient \<open>0 / 0\<close> of an all-zero
  vector, the propagation of \<open>nan\<close>, the sign of a sum of terms of one sign, and
  results on vectors whose arithmetic is exact in floating point too.
\<close>

datatype pyfloat = Fin real | PInf | NInf | NaN

type_synonym vec = "real list"

definition np_divide :: "real \<Rightarrow> real \<Rightarrow> pyfloat" where
  "np_divide x y =
     (if y \<noteq> 0 then Fin (x / y)
      else if x = 0 then NaN
      else if 0 < x then PInf else NInf)"

text \<open>\<open>np.maximum\<close>: a \<open>nan\<close> operand gives \<open>nan\<close>.\<close>

fun np_maximum :: "pyfloat \<Rightarrow> pyfloat \<Rightarrow> pyfloat" where
  "np_maximum NaN b = NaN"
| "np_maximum a NaN = NaN"
| "np_maximum PInf b = PInf"
| "np_maximum a PInf = PInf"
| "np_maximum NInf b = b"
| "np_maximum a NInf = a"
| "np_maximum (Fin x) (Fin y) = Fin (max x y)"

text \<open>\<open>np.max\<close> of a one-dimensional array; numpy raises \<open>ValueError\<close> on an empty one.\<close>

fun np_max :: "pyfloat list \<Rightarrow> error + pyfloat" where
  "np_max [] = Inl (ValueError ''zero-size array to reduction operation maximum which has no identity'')"
| "np_max (x # xs) = Inr (foldl np_maximum x xs)"

text \<open>\<open>1.0 - max_sim\<close>.\<close>

fun one_minus :: "pyfloat \<Rightarrow> pyfloat" where
  "one_minus (Fin x) = Fin (1 - x)"
| "one_minus PInf = NInf"
| "one_minus NInf = PInf"
| "one_minus NaN = NaN"

text \<open>Comparison of a stored score with a threshold: every comparison with \<open>nan\<close> is false.\<close>

fun float_less :: "pyfloat \<Rightarrow> pyfloat \<Rightarrow> bool" where
  "float_less NaN b = False"
| "float_less a NaN = False"
| "float_less a NInf = False"
| "float_less NInf b = True"
| "float_less PInf b = False"
| "float_less a PInf = True"
| "float_less (Fin x) (Fin y) = (x < y)"

section \<open>The surprise scorer (core_logic.py, MemoryLogic)\<close>

text \<open>
  The sentence-embedding model is a parameter: a function from a text to its vector, or
  \<open>None\<close> when the provider raises. \<open>encode\<close> is the batch call
  \<open>self.model.encode(texts)\<close>: one row per text, and it fails when any row fails.
  Inside one call of \<open>calculate_surprise\<close> the model is a function of the text.
\<close>

type_synonym embedder = "string \<Rightarrow> vec option"

fun encode :: "embedder \<Rightarrow> string list \<Rightarrow> vec list option" where
  "encode model [] = Some []"
| "encode model (t # ts) =
     (case model t of
        None \<Rightarrow> None
      | Some v \<Rightarrow> (case encode model ts of None \<Rightarrow> None | Some vs \<Rightarrow> Some (v # vs)))"

definition dot :: "vec \<Rightarrow> vec \<Rightarrow> real" where
  "dot u v = sum_list (map2 (*) u v)"

definition norm2 :: "vec \<Rightarrow> real" where
  "norm2 v = sqrt (sum_list (map (\<lambda>x. x * x) v))"

text \<open>
  \<open>np.dot(hist_embeddings, new_embedding) / (np.linalg.norm(hist_embeddings, axis=1)
  * np.linalg.norm(new_embedding))\<close>, row by row.
\<close>

definition similarities :: "vec list \<Rightarrow> vec \<Rightarrow> pyfloat list" where
  "similarities hist_embeddings new_embedding =
     map (\<lambda>h. np_divide (dot h new_embedding) (norm2 h * norm2 new_embedding)) hist_embeddings"

text \<open>
  \<open>calculate_surprise\<close>. The early return for an empty history comes first, before any
  call of the embedding model. \<open>np.dot\<close> raises \<open>ValueError\<close> when a row's length differs
  from the length of the new embedding.
\<close>

definition calculate_surprise :: "embedder \<Rightarrow> string \<Rightarrow> string list \<Rightarrow> error + pyfloat" where
  "calculate_surprise model new_content historical_contents =
     (if historical_contents = [] then Inr (Fin 1)
      else case model new_content of
        None \<Rightarrow> Inl EmbeddingFailure
      | Some new_embedding \<Rightarrow>
         (case encode model historical_contents of
            None \<Rightarrow> Inl EmbeddingFailure
          | Some hist_embeddings \<Rightarrow>
              if \<not> list_all (\<lambda>h. length h = length new_embedding) hist_embeddings
              then Inl (ValueError ''shapes not aligned'')
              else (case np_max (similarities hist_embeddings new_embedding) of
                      Inl e \<Rightarrow> Inl e
                    | Inr max_sim \<Rightarrow> Inr (one_minus max_sim))))"

section \<open>The stores (memory_engine.py)\<close>

text \<open>
  The SQLite tables are lists of rows in rowid order; the LanceDB table
  \<open>master_vectors\<close> is a list of rows, or \<open>None\<close> as long as it has not been created.
  A timestamp is an integer count of clock ticks. The vector table keys a row by
  \<open>str(interaction_id)\<close>; the model keeps the integer, \<open>str\<close> being injective.
  Failures of the database and of the file system are outside the model.
\<close>

record Interaction =
  interaction_id :: int
  timestamp :: int
  role :: string
  content :: string
  surprise_score :: pyfloat
  conversation_id :: string

record 'v KnowledgeNode =
  node_id :: int
  entity :: string
  description :: string
  node_data :: "string \<rightharpoonup> 'v"

record KnowledgeEdge =
  edge_id :: int
  source_id :: int
  target_id :: int
  relationship :: string
  weight :: real

record vector_row =
  vector :: vec
  row_id :: int
  row_content :: string
  row_role :: string
  row_conversation_id :: string
  row_timestamp :: int

record 'v MemoryEngine =
  interactions :: "Interaction list"
  knowledge_nodes :: "'v KnowledgeNode list"
  knowledge_edges :: "KnowledgeEdge list"
  master_vectors :: "vector_row list option"

text \<open>
  An \<open>INTEGER PRIMARY KEY\<close> left unset on insert is one more than the largest key in
  the table, and 1 in an empty table.
\<close>

definition new_rowid :: "int list \<Rightarrow> int" where
  "new_rowid ids = fold max ids 0 + 1"

text \<open>
  \<open>retrieve_episodic\<close>: the rows of the conversation by descending timestamp, at most
  \<open>limit\<close> of them. Rows with equal timestamps stay in table order.
\<close>

definition retrieve_episodic :: "'v MemoryEngine \<Rightarrow> string \<Rightarrow> nat \<Rightarrow> Interaction list" where
  "retrieve_episodic eng cid limit =
     take limit (sort_key (\<lambda>i. - timestamp i)
       (filter (\<lambda>i. conversation_id i = cid) (interactions eng)))"

text \<open>
  \<open>ingest_interaction\<close>. \<open>now\<close> is the clock reading of the row's \<open>default_factory\<close>,
  \<open>now'\<close> the one of the data packet. The function returns the engine as it is left
  behind together with the returned id or the exception raised. The steps are those of
  the source, in its order: history, surprise, commit to SQLite, embedding of the
  content, write to the vector table (created on first use).

  The embedding of step 4 is a call of its own, made after the commit: \<open>model\<close> is the
  embedding model as it answers the calls inside \<open>calculate_surprise\<close>, \<open>index_model\<close> the
  model as it answers the call of step 4, and one may raise where the other did not.
  The column \<open>surprise_score\<close> is \<open>NOT NULL\<close> and SQLite binds \<open>nan\<close> as \<open>NULL\<close>:
  the commit of a row with score \<open>nan\<close> raises \<open>IntegrityError\<close> and stores nothing.
\<close>

definition ingest_interaction ::
  "embedder \<Rightarrow> embedder \<Rightarrow> int \<Rightarrow> int \<Rightarrow> 'v MemoryEngine \<Rightarrow> string \<Rightarrow> string \<Rightarrow> string
     \<Rightarrow> 'v MemoryEngine \<times> (error + int)" where
  "ingest_interaction model index_model now now' eng cid rl cont =
     (let history = retrieve_episodic eng cid 50;
          hist_contents = map content history
      in case calculate_surprise model cont hist_contents of
           Inl e \<Rightarrow> (eng, Inl e)
         | Inr score \<Rightarrow>
            if score = NaN then (eng, Inl IntegrityError)
            else
            (let iid = new_rowid (map interaction_id (interactions eng));
                 interaction = \<lparr>interaction_id = iid, timestamp = now, role = rl,
                     content = cont, surprise_score = score, conversation_id = cid\<rparr>;
                 eng1 = eng\<lparr>interactions := interactions eng @ [interaction]\<rparr>
             in case index_model cont of
                  None \<Rightarrow> (eng1, Inl EmbeddingFailure)
                | Some embedding \<Rightarrow>
                   (let data_packet = \<lparr>vector = embedding, row_id = iid, row_content = cont,
                            row_role = rl, row_conversation_id = cid, row_timestamp = now'\<rparr>
                    in (eng1\<lparr>master_vectors :=
                          (case master_vectors eng1 of
                             None \<Rightarrow> Some [data_packet]
                           | Some table \<Rightarrow> Some (table @ [data_packet]))\<rparr>,
                        Inr iid))))"

text \<open>
  \<open>prune_interactions\<close>: the rows of the conversation below the threshold are deleted
  by key from SQLite, then from the vector table when it exists (when it does not,
  \<open>open_table\<close> raises and the source only prints a warning).
\<close>

definition prune_interactions ::
  "'v MemoryEngine \<Rightarrow> string \<Rightarrow> pyfloat \<Rightarrow> 'v MemoryEngine \<times> nat" where
  "prune_interactions eng cid threshold =
     (let to_prune = filter (\<lambda>i. conversation_id i = cid
                                  \<and> float_less (surprise_score i) threshold) (interactions eng);
          ids_to_prune = map interaction_id to_prune
      in if ids_to_prune = [] then (eng, 0)
         else (eng\<lparr>interactions :=
                     filter (\<lambda>i. interaction_id i \<notin> set ids_to_prune) (interactions eng),
                   master_vectors :=
                     (case master_vectors eng of
                        None \<Rightarrow> None
                      | Some table \<Rightarrow>
                          Some (filter (\<lambda>r. row_id r \<notin> set ids_to_prune) table))\<rparr>,
               length ids_to_prune))"

text \<open>
  \<open>consolidate_memory\<close> (mcp_server.py) formats a message from the high-surprise rows
  and the number pruned; the model returns the two, with the engine left behind.
\<close>

definition consolidate_memory ::
  "'v MemoryEngine \<Rightarrow> string \<Rightarrow> 'v MemoryEngine \<times> Interaction list \<times> nat" where
  "consolidate_memory eng cid =
     (let history = retrieve_episodic eng cid 100;
          high_surprise = filter (\<lambda>h. float_less (Fin (1/2)) (surprise_score h)) history;
          (eng', num_pruned) = prune_interactions eng cid (Fin (1/10))
      in (eng', high_surprise, num_pruned))"

section \<open>The knowledge graph (memory_engine.py)\<close>

definition separator :: string where
  "separator = CHR 0x0A # ''---'' @ [CHR 0x0A]"

text \<open>
  \<open>add_knowledge_node\<close>. \<open>node_data\<close> is Python's \<open>Optional[Dict]\<close>; \<open>if node_data:\<close> holds
  for a dictionary that is present and not empty. The stored JSON text is modelled by
  the dictionary it encodes, and \<open>dict.update\<close> is map override.
\<close>

definition add_knowledge_node ::
  "'v MemoryEngine \<Rightarrow> string \<Rightarrow> string \<Rightarrow> (string \<rightharpoonup> 'v) option \<Rightarrow> 'v MemoryEngine \<times> int" where
  "add_knowledge_node eng ent desc data =
     (case find (\<lambda>n. entity n = ent) (knowledge_nodes eng) of
        Some existing \<Rightarrow>
          (let existing1 = existing\<lparr>description := description existing @ separator @ desc\<rparr>;
               existing2 = (case data of
                              None \<Rightarrow> existing1
                            | Some d \<Rightarrow> if d = Map.empty then existing1
                                        else existing1\<lparr>node_data := node_data existing ++ d\<rparr>)
           in (eng\<lparr>knowledge_nodes :=
                      map (\<lambda>n. if node_id n = node_id existing then existing2 else n)
                          (knowledge_nodes eng)\<rparr>,
               node_id existing))
      | None \<Rightarrow>
          (let nid = new_rowid (map node_id (knowledge_nodes eng));
               node = \<lparr>node_id = nid, entity = ent, description = desc,
                        node_data = (case data of None \<Rightarrow> Map.empty | Some d \<Rightarrow> d)\<rparr>
           in (eng\<lparr>knowledge_nodes := knowledge_nodes eng @ [node]\<rparr>, nid)))"

definition add_knowledge_edge ::
  "'v MemoryEngine \<Rightarrow> string \<Rightarrow> string \<Rightarrow> string \<Rightarrow> real \<Rightarrow> 'v MemoryEngine \<times> (error + int)" where
  "add_knowledge_edge eng source_entity target_entity rel w =
     (case (find (\<lambda>n. entity n = source_entity) (knowledge_nodes eng),
            find (\<lambda>n. entity n = target_entity) (knowledge_nodes eng)) of
        (Some source, Some target) \<Rightarrow>
          (let eid = new_rowid (map edge_id (knowledge_edges eng));
               edge = \<lparr>edge_id = eid, source_id = node_id source, target_id = node_id target,
                        relationship = rel, weight = w\<rparr>
           in (eng\<lparr>knowledge_edges := knowledge_edges eng @ [edge]\<rparr>, Inr eid))
      | _ \<Rightarrow> (eng, Inl (ValueError ''Source or Target entity not found in Knowledge Graph'')))"

text \<open>The dictionaries that \<open>traverse_graph\<close> returns.\<close>

record path_step =
  step_source :: string
  step_relationship :: string
  step_target :: string
  step_description :: string

text \<open>
  The \<open>for edge in edges\<close> loop of \<open>traverse_graph\<close>, on the loop state
  \<open>(visited, results, queue)\<close>. \<open>session.get\<close> finds the target by its key.
\<close>

fun expand_edges ::
  "'v MemoryEngine \<Rightarrow> 'v KnowledgeNode \<Rightarrow> int \<Rightarrow> KnowledgeEdge list
     \<Rightarrow> int set \<times> path_step list \<times> ('v KnowledgeNode \<times> int) list
     \<Rightarrow> int set \<times> path_step list \<times> ('v KnowledgeNode \<times> int) list" where
  "expand_edges eng current_node depth [] st = st"
| "expand_edges eng current_node depth (edge # edges) (visited, results, queue) =
     (case find (\<lambda>n. node_id n = target_id edge) (knowledge_nodes eng) of
        None \<Rightarrow> expand_edges eng current_node depth edges (visited, results, queue)
      | Some target_node \<Rightarrow>
          if node_id target_node \<notin> visited
          then expand_edges eng current_node depth edges
                 (insert (node_id target_node) visited,
                  results @ [\<lparr>step_source = entity current_node,
                              step_relationship = relationship edge,
                              step_target = entity target_node,
                              step_description = description target_node\<rparr>],
                  queue @ [(target_node, depth + 1)])
          else expand_edges eng current_node depth edges (visited, results, queue))"

text \<open>
  The \<open>while queue\<close> loop of \<open>traverse_graph\<close>: \<open>queue.pop(0)\<close> takes the head, a node
  at depth \<open>max_depth\<close> or more is skipped, otherwise its outgoing edges are expanded.
\<close>

function traverse_loop ::
  "'v MemoryEngine \<Rightarrow> int \<Rightarrow> int set \<Rightarrow> path_step list \<Rightarrow> ('v KnowledgeNode \<times> int) list
     \<Rightarrow> path_step list" where
  "traverse_loop eng max_depth visited results [] = results"
| "traverse_loop eng max_depth visited results ((current_node, depth) # queue) =
     (if depth \<ge> max_depth then traverse_loop eng max_depth visited results queue
      else (let edges = filter (\<lambda>e. source_id e = node_id current_node) (knowledge_edges eng)
            in case expand_edges eng current_node depth edges (visited, results, queue) of
                 (visited', results', queue') \<Rightarrow>
                    traverse_loop eng max_depth visited' results' queue'))"
  by pat_completeness auto

definition traverse_graph :: "'v MemoryEngine \<Rightarrow> string \<Rightarrow> int \<Rightarrow> path_step list" where
  "traverse_graph eng start_entity max_depth =
     (case find (\<lambda>n. entity n = start_entity) (knowledge_nodes eng) of
        None \<Rightarrow> []
      | Some start_node \<Rightarrow>
          traverse_loop eng max_depth {node_id start_node} [] [(start_node, 0)])"

section \<open>The conversation registry (mcp_server.py)\<close>

text \<open>
  The module keeps the current id in a global (\<open>None\<close> in a fresh process) and the
  registry in a JSON file, a dictionary from working directory to conversation id.
  \<open>cwd\<close> is the value of \<open>os.getcwd()\<close> and \<open>new_id\<close> the string that the call would
  generate from the clock and \<open>uuid4\<close>.
\<close>

record server =
  current_conversation_id :: "string option"
  project_registry :: "string \<rightharpoonup> string"

definition get_conversation_id :: "server \<Rightarrow> string \<Rightarrow> string \<Rightarrow> server \<times> string" where
  "get_conversation_id srv cwd new_id =
     (case current_conversation_id srv of
        Some cid \<Rightarrow> (srv, cid)
      | None \<Rightarrow>
         (case project_registry srv cwd of
            Some cid \<Rightarrow> (srv\<lparr>current_conversation_id := Some cid\<rparr>, cid)
          | None \<Rightarrow>
              (srv\<lparr>current_conversation_id := Some new_id,
                   project_registry := (project_registry srv)(cwd \<mapsto> new_id)\<rparr>,
               new_id)))"

definition reset_conversation_id :: "server \<Rightarrow> string \<Rightarrow> string \<Rightarrow> server \<times> string" where
  "reset_conversation_id srv cwd new_id =
     (srv\<lparr>current_conversation_id := Some new_id,
          project_registry := (project_registry srv)(cwd \<mapsto> new_id)\<rparr>,
      new_id)"

text \<open>A process restart clears the global and keeps the registry file.\<close>

definition restart :: "server \<Rightarrow> server" where
  "restart srv = srv\<lparr>current_conversation_id := None\<rparr>"

section \<open>Invariants and example data\<close>

text \<open>
  Keys are unique in each table (they are primary keys), and so are the entity names of
  the node table: \<open>add_knowledge_node\<close>, the only writer of that table, inserts a row only
  for an entity that has none.
\<close>

definition node_ids :: "'v MemoryEngine \<Rightarrow> int set" where
  "node_ids eng = node_id ` set (knowledge_nodes eng)"

definition graph_inv :: "'v MemoryEngine \<Rightarrow> bool" where
  "graph_inv eng \<longleftrightarrow>
     distinct (map node_id (knowledge_nodes eng)) \<and> distinct (map entity (knowledge_nodes eng))"

definition episodic_inv :: "'v MemoryEngine \<Rightarrow> bool" where
  "episodic_inv eng \<longleftrightarrow> distinct (map interaction_id (interactions eng))"

definition empty_engine :: "'v MemoryEngine" where
  "empty_engine = \<lparr>interactions = [], knowledge_nodes = [], knowledge_edges = [],
                    master_vectors = None\<rparr>"

text \<open>
  The loop invariant of the traversal, for a set \<open>seed\<close> of initially visited keys: the
  targets reported so far are pairwise different entities of visited nodes outside the
  seed.
\<close>

definition traversal_inv ::
  "'v MemoryEngine \<Rightarrow> int set \<Rightarrow> int set \<Rightarrow> path_step list \<Rightarrow> bool" where
  "traversal_inv eng seed visited results \<longleftrightarrow>
     seed \<subseteq> visited \<and> distinct (map step_target results) \<and>
     set (map step_target results)
       \<subseteq> entity ` {n \<in> set (knowledge_nodes eng). node_id n \<in> visited - seed}"

text \<open>
  Example embedding models: one that raises on every text, and one with
  one-dimensional vectors, among them two opposite unit vectors and the zero vector.
\<close>

definition failing_model :: embedder where
  "failing_model t = None"

definition signed_model :: embedder where
  "signed_model t =
     (if t = ''yes'' then Some [1]
      else if t = ''no'' then Some [- 1]
      else if t = ''zero'' then Some [0]
      else None)"

text \<open>An engine that holds one interaction of conversation \<open>s1\<close>, indexed.\<close>

definition one_interaction_engine :: "unit MemoryEngine" where
  "one_interaction_engine =
     \<lparr>interactions = [\<lparr>interaction_id = 1, timestamp = 5, role = ''user'',
          content = ''yes'', surprise_score = Fin 1, conversation_id = ''s1''\<rparr>],
      knowledge_nodes = [], knowledge_edges = [],
      master_vectors = Some [\<lparr>vector = [1], row_id = 1, row_content = ''yes'',
          row_role = ''user'', row_conversation_id = ''s1'', row_timestamp = 5\<rparr>]\<rparr>"

text \<open>The rows that \<open>prune_interactions\<close> selects.\<close>

definition low_surprise :: "string \<Rightarrow> pyfloat \<Rightarrow> Interaction \<Rightarrow> bool" where
  "low_surprise cid thr i \<longleftrightarrow> conversation_id i = cid \<and> float_less (surprise_score i) thr"

text \<open>
  The node that the specification prescribes for a repeated \<open>upsertNode\<close>, to compare
  with what \<open>add_knowledge_node\<close> stores: key and entity stay, the description is the old
  one, the separator and the new one, and each attribute is the new value where the new
  dictionary has the key and the old value elsewhere.
\<close>

definition spec_merged_node ::
  "'v KnowledgeNode \<Rightarrow> string \<Rightarrow> (string \<rightharpoonup> 'v) option \<Rightarrow> 'v KnowledgeNode" where
  "spec_merged_node old desc data =
     old\<lparr>description := description old @ separator @ desc,
         node_data := (\<lambda>k. case (case data of None \<Rightarrow> None | Some d \<Rightarrow> d k) of
                             Some v \<Rightarrow> Some v
                           | None \<Rightarrow> node_data old k)\<rparr>"

text \<open>
  Five interactions, four of conversation \<open>s1\<close> with scores 1, 0.05, 0.9 and 0.3 and
  timestamps out of table order, and what consolidation of \<open>s1\<close> leaves of them.
\<close>

definition consolidation_engine :: "unit MemoryEngine" where
  "consolidation_engine =
     \<lparr>interactions =
        [\<lparr>interaction_id = 1, timestamp = 10, role = ''user'', content = ''a'',
          surprise_score = Fin 1, conversation_id = ''s1''\<rparr>,
         \<lparr>interaction_id = 2, timestamp = 20, role = ''user'', content = ''b'',
          surprise_score = Fin (1/20), conversation_id = ''s1''\<rparr>,
         \<lparr>interaction_id = 3, timestamp = 30, role = ''user'', content = ''c'',
          surprise_score = Fin (9/10), conversation_id = ''s1''\<rparr>,
         \<lparr>interaction_id = 4, timestamp = 40, role = ''user'', content = ''d'',
          surprise_score = Fin (1/20), conversation_id = ''s2''\<rparr>,
         \<lparr>interaction_id = 5, timestamp = 25, role = ''user'', content = ''e'',
          surprise_score = Fin (3/10), conversation_id = ''s1''\<rparr>],
      knowledge_nodes = [], knowledge_edges = [],
      master_vectors = Some
        [\<lparr>vector = [1], row_id = 1, row_content = ''a'', row_role = ''user'',
          row_conversation_id = ''s1'', row_timestamp = 10\<rparr>,
         \<lparr>vector = [1], row_id = 2, row_content = ''b'', row_role = ''user'',
          row_conversation_id = ''s1'', row_timestamp = 20\<rparr>,
         \<lparr>vector = [1], row_id = 4, row_content = ''d'', row_role = ''user'',
          row_conversation_id = ''s2'', row_timestamp = 40\<rparr>]\<rparr>"

definition consolidated_engine :: "unit MemoryEngine" where
  "consolidated_engine =
     \<lparr>interactions =
        [\<lparr>interaction_id = 1, timestamp = 10, role = ''user'', content = ''a'',
          surprise_score = Fin 1, conversation_id = ''s1''\<rparr>,
         \<lparr>interaction_id = 3, timestamp = 30, role = ''user'', content = ''c'',
          surprise_score = Fin (9/10), conversation_id = ''s1''\<rparr>,
         \<lparr>interaction_id = 4, timestamp = 40, role = ''user'', content = ''d'',
          surprise_score = Fin (1/20), conversation_id = ''s2''\<rparr>,
         \<lparr>interaction_id = 5, timestamp = 25, role = ''user'', content = ''e'',
          surprise_score = Fin (3/10), conversation_id = ''s1''\<rparr>],
      knowledge_nodes = [], knowledge_edges = [],
      master_vectors = Some
        [\<lparr>vector = [1], row_id = 1, row_content = ''a'', row_role = ''user'',
          row_conversation_id = ''s1'', row_timestamp = 10\<rparr>,
         \<lparr>vector = [1], row_id = 4, row_content = ''d'', row_role = ''user'',
          row_conversation_id = ''s2'', row_timestamp = 40\<rparr>]\<rparr>"

text \<open>The promoted rows of the example, newest first.\<close>

definition promoted_rows :: "Interaction list" where
  "promoted_rows =
     [\<lparr>interaction_id = 3, timestamp = 30, role = ''user'', content = ''c'',
       surprise_score = Fin (9/10), conversation_id = ''s1''\<rparr>,
      \<lparr>interaction_id = 1, timestamp = 10, role = ''user'', content = ''a'',
       surprise_score = Fin 1, conversation_id = ''s1''\<rparr>]"

text \<open>
  A graph with the cycle A, B, A, two edges from A to B with different labels, and a
  second path from A to B through C.
\<close>

definition example_graph :: "unit MemoryEngine" where
  "example_graph =
     \<lparr>interactions = [],
      knowledge_nodes =
        [\<lparr>node_id = 1, entity = ''A'', description = ''first'', node_data = Map.empty\<rparr>,
         \<lparr>node_id = 2, entity = ''B'', description = ''second'', node_data = Map.empty\<rparr>,
         \<lparr>node_id = 3, entity = ''C'', description = ''third'', node_data = Map.empty\<rparr>],
      knowledge_edges =
        [\<lparr>edge_id = 1, source_id = 1, target_id = 2, relationship = ''r1'', weight = 1\<rparr>,
         \<lparr>edge_id = 2, source_id = 1, target_id = 2, relationship = ''r2'', weight = 1\<rparr>,
         \<lparr>edge_id = 3, source_id = 1, target_id = 3, relationship = ''r3'', weight = 1\<rparr>,
         \<lparr>edge_id = 4, source_id = 3, target_id = 2, relationship = ''r4'', weight = 1\<rparr>,
         \<lparr>edge_id = 5, source_id = 2, target_id = 1, relationship = ''r5'', weight = 1\<rparr>],
      master_vectors = None\<rparr>"

text \<open>An engine with the single node X, and a dictionary to merge into it.\<close>

definition node_X :: "nat KnowledgeNode" where
  "node_X = \<lparr>node_id = 1, entity = ''X'', description = ''first'',
             node_data = [''colour'' \<mapsto> 1, ''size'' \<mapsto> 5]\<rparr>"

definition one_node_engine :: "nat MemoryEngine" where
  "one_node_engine = \<lparr>interactions = [], knowledge_nodes = [node_X], knowledge_edges = [],
                       master_vectors = None\<rparr>"

definition new_data :: "string \<rightharpoonup> nat" where
  "new_data = [''colour'' \<mapsto> 2, ''shape'' \<mapsto> 3]"



section \<open>The breadth-first order, as the specification words it\<close>

text \<open>
  The following definitions are not taken from the source. They say in the words of
  the specification which edges yield a step, to compare with what \<open>traverse_graph\<close>
  returns. There is no queue: the traversal goes level by level. The edges
  encountered at a level are the edges that leave its nodes, node after node in the
  order in which the nodes were reached, the edges of one node in table order.
\<close>

definition out_edges :: "'v MemoryEngine \<Rightarrow> 'v KnowledgeNode \<Rightarrow> KnowledgeEdge list" where
  "out_edges eng s = filter (\<lambda>e. source_id e = node_id s) (knowledge_edges eng)"

definition spec_encountered ::
  "'v MemoryEngine \<Rightarrow> 'v KnowledgeNode list \<Rightarrow> ('v KnowledgeNode \<times> KnowledgeEdge) list" where
  "spec_encountered eng level = concat (map (\<lambda>s. map (Pair s) (out_edges eng s)) level)"

text \<open>
  Only the first edge to a node yields a step: the edge at position \<open>i\<close> of the
  encountered edges yields one when its target is a node of the table that was not
  seen at an earlier level and no edge at a position before \<open>i\<close> leads to the same
  target. Every other edge is omitted, whatever its label.
\<close>

definition spec_first_edges ::
  "'v MemoryEngine \<Rightarrow> int set \<Rightarrow> ('v KnowledgeNode \<times> KnowledgeEdge) list
     \<Rightarrow> ('v KnowledgeNode \<times> KnowledgeEdge \<times> 'v KnowledgeNode) list" where
  "spec_first_edges eng seen encountered =
     List.map_filter
       (\<lambda>i. case find (\<lambda>n. node_id n = target_id (snd (encountered ! i))) (knowledge_nodes eng) of
               None \<Rightarrow> None
             | Some t \<Rightarrow>
                 if node_id t \<in> seen
                    \<or> target_id (snd (encountered ! i))
                        \<in> set (map (target_id \<circ> snd) (take i encountered))
                 then None
                 else Some (fst (encountered ! i), snd (encountered ! i), t))
       [0..<length encountered]"

definition step_of :: "'v KnowledgeNode \<times> KnowledgeEdge \<times> 'v KnowledgeNode \<Rightarrow> path_step" where
  "step_of x = (case x of (s, e, t) \<Rightarrow>
     \<lparr>step_source = entity s, step_relationship = relationship e,
      step_target = entity t, step_description = description t\<rparr>)"

definition reached ::
  "('v KnowledgeNode \<times> KnowledgeEdge \<times> 'v KnowledgeNode) list \<Rightarrow> 'v KnowledgeNode list" where
  "reached firsts = map (\<lambda>x. snd (snd x)) firsts"

text \<open>
  A level at depth \<open>max_depth\<close> or more is not expanded. Otherwise the first edges of
  the level give the next steps of the result, in their order, and the nodes they reach
  are the next level.
\<close>

function spec_levels ::
  "'v MemoryEngine \<Rightarrow> int \<Rightarrow> int \<Rightarrow> int set \<Rightarrow> 'v KnowledgeNode list \<Rightarrow> path_step list" where
  "spec_levels eng max_depth depth seen level =
     (if max_depth \<le> depth then []
      else (let firsts = spec_first_edges eng seen (spec_encountered eng level)
            in map step_of firsts
               @ spec_levels eng max_depth (depth + 1)
                   (seen \<union> node_id ` set (reached firsts)) (reached firsts)))"
  by pat_completeness auto
termination
  by (relation "measure (\<lambda>(eng, max_depth, depth, seen, level). nat (max_depth - depth))") auto

declare spec_levels.simps [simp del]

definition spec_traverse :: "'v MemoryEngine \<Rightarrow> string \<Rightarrow> int \<Rightarrow> path_step list" where
  "spec_traverse eng start_entity max_depth =
     (case find (\<lambda>n. entity n = start_entity) (knowledge_nodes eng) of
        None \<Rightarrow> []
      | Some start_node \<Rightarrow> spec_levels eng max_depth 0 {node_id start_node} [start_node])"

text \<open>
  A diamond: D is reached from B and from C, and B from A by two edges with different
  labels.
\<close>

definition diamond_graph :: "unit MemoryEngine" where
  "diamond_graph =
     \<lparr>interactions = [],
      knowledge_nodes =
        [\<lparr>node_id = 1, entity = ''A'', description = ''a'', node_data = Map.empty\<rparr>,
         \<lparr>node_id = 2, entity = ''B'', description = ''b'', node_data = Map.empty\<rparr>,
         \<lparr>node_id = 3, entity = ''C'', description = ''c'', node_data = Map.empty\<rparr>,
         \<lparr>node_id = 4, entity = ''D'', description = ''d'', node_data = Map.empty\<rparr>],
      knowledge_edges =
        [\<lparr>edge_id = 1, source_id = 1, target_id = 2, relationship = ''ab'', weight = 1\<rparr>,
         \<lparr>edge_id = 2, source_id = 1, target_id = 2, relationship = ''ab2'', weight = 1\<rparr>,
         \<lparr>edge_id = 3, source_id = 1, target_id = 3, relationship = ''ac'', weight = 1\<rparr>,
         \<lparr>edge_id = 4, source_id = 3, target_id = 4, relationship = ''cd'', weight = 1\<rparr>,
         \<lparr>edge_id = 5, source_id = 2, target_id = 4, relationship = ''bd'', weight = 1\<rparr>],
      master_vectors = None\<rparr>"

definition diamond_steps :: "path_step list" where
  "diamond_steps =
     [\<lparr>step_source = ''A'', step_relationship = ''ab'', step_target = ''B'',
       step_description = ''b''\<rparr>,
      \<lparr>step_source = ''A'', step_relationship = ''ac'', step_target = ''C'',
       step_description = ''c''\<rparr>,
      \<lparr>step_source = ''B'', step_relationship = ''bd'', step_target = ''D'',
       step_description = ''d''\<rparr>]"

section \<open>Termination of the traversal\<close>

lemma find_node_id:
  "find (\<lambda>n. node_id n = k) ns = Some t \<Longrightarrow> node_id t = k \<and> t \<in> set ns"
  by (induction ns) (auto split: if_splits)

lemma expand_edges_visited_mono:
  "expand_edges eng cur d es (vis, res, q) = (vis', res', q') \<Longrightarrow> vis \<subseteq> vis'"
proof (induction es arbitrary: vis res q)
  case Nil
  then show ?case by simp
next
  case (Cons e es)
  then show ?case by (auto split: option.splits if_splits)
qed

text \<open>
  Every node put on the queue is a node of the table that was not visited before, so
  the queue grows only as the unvisited part of the table shrinks.
\<close>

lemma expand_edges_measure:
  "expand_edges eng cur d es (vis, res, q) = (vis', res', q') \<Longrightarrow>
   length q' + card (node_ids eng - vis') = length q + card (node_ids eng - vis)"
proof (induction es arbitrary: vis res q)
  case Nil
  then show ?case by simp
next
  case (Cons e es)
  show ?case
  proof (cases "find (\<lambda>n. node_id n = target_id e) (knowledge_nodes eng)")
    case None
    with Cons show ?thesis by simp
  next
    case (Some t)
    show ?thesis
    proof (cases "node_id t \<in> vis")
      case True
      with Some Cons show ?thesis by simp
    next
      case False
      have tin: "node_id t \<in> node_ids eng"
        using find_node_id[OF Some] by (force simp: node_ids_def)
      have fin: "finite (node_ids eng - vis)"
        by (simp add: node_ids_def)
      have eq: "node_ids eng - insert (node_id t) vis = (node_ids eng - vis) - {node_id t}"
        by auto
      have c: "card (node_ids eng - insert (node_id t) vis) + 1 = card (node_ids eng - vis)"
        unfolding eq using tin False fin
        by (metis DiffI Suc_eq_plus1 card_Suc_Diff1)
      from Cons.prems Some False have
        "expand_edges eng cur d es (insert (node_id t) vis,
            res @ [\<lparr>step_source = entity cur, step_relationship = relationship e,
                     step_target = entity t, step_description = description t\<rparr>],
            q @ [(t, d + 1)]) = (vis', res', q')"
        by simp
      from Cons.IH[OF this] c show ?thesis by simp
    qed
  qed
qed

lemma traverse_loop_total: "All traverse_loop_dom"
proof (relation "measure (\<lambda>(eng, max_depth, visited, results, queue).
          2 * card (node_ids eng - visited) + length queue)", goal_cases)
  case 1
  show ?case by simp
next
  case 2
  then show ?case by simp
next
  case (3 eng max_depth visited results current_node depth queue edges visited' rq results' queue')
  then have e: "expand_edges eng current_node depth edges (visited, results, queue)
                  = (visited', results', queue')"
    by simp
  have "visited \<subseteq> visited'"
    by (rule expand_edges_visited_mono[OF e])
  then have "card (node_ids eng - visited') \<le> card (node_ids eng - visited)"
    by (intro card_mono) (auto simp: node_ids_def)
  with expand_edges_measure[OF e] show ?case by simp
qed

termination traverse_loop
  by (rule traverse_loop_total)

section \<open>Conversation identity\<close>

lemma get_conversation_id_cached:
  "current_conversation_id (fst (get_conversation_id srv cwd new_id))
     = Some (snd (get_conversation_id srv cwd new_id))"
  by (simp add: get_conversation_id_def split: option.splits)

lemma get_conversation_id_after_restart:
  "current_conversation_id srv = None \<Longrightarrow>
   snd (get_conversation_id (restart (fst (get_conversation_id srv cwd new_id))) cwd new_id')
     = snd (get_conversation_id srv cwd new_id)"
  by (simp add: get_conversation_id_def restart_def split: option.splits)

lemma reset_conversation_id_fresh:
  "snd (get_conversation_id (fst (reset_conversation_id srv cwd new_id)) cwd' new_id') = new_id"
  by (simp add: get_conversation_id_def reset_conversation_id_def)

text \<open>
  Claim C9. Two calls of \<open>get_conversation_id\<close> with no \<open>reset_conversation_id\<close> between
  them return the same conversation id, whatever the state of the registry before the
  first call and whatever id the second call would have generated: the first call
  leaves its result in the global, and the second returns the global.
\<close>

theorem get_conversation_id_idempotent:
  "snd (get_conversation_id (fst (get_conversation_id srv cwd new_id)) cwd new_id')
     = snd (get_conversation_id srv cwd new_id)"
  by (simp add: get_conversation_id_def split: option.splits)

section \<open>The surprise score\<close>

text \<open>
  Claim C8. With an empty history \<open>calculate_surprise\<close> returns exactly 1.0, for every
  content and every embedding model (the model is not called). Hence an interaction
  ingested into a conversation that has no row in the store is recorded with score
  exactly 1.0, and it is the only row of its conversation afterwards.
\<close>

theorem calculate_surprise_empty_history:
  "calculate_surprise model cont [] = Inr (Fin 1) \<and>
   (filter (\<lambda>i. conversation_id i = cid) (interactions eng) = [] \<longrightarrow>
      filter (\<lambda>i. conversation_id i = cid)
         (interactions (fst (ingest_interaction model index_model now now' eng cid rl cont)))
        = [\<lparr>interaction_id = new_rowid (map interaction_id (interactions eng)),
            timestamp = now, role = rl, content = cont, surprise_score = Fin 1,
            conversation_id = cid\<rparr>])"
proof -
  have "retrieve_episodic eng cid 50 = []"
    if "filter (\<lambda>i. conversation_id i = cid) (interactions eng) = []"
    using that by (simp add: retrieve_episodic_def)
  then show ?thesis
    by (auto simp: calculate_surprise_def ingest_interaction_def Let_def split: option.splits)
qed

theorem calculate_surprise_empty_history_witness:
  "filter (\<lambda>i. conversation_id i = ''s1'') (interactions (empty_engine :: unit MemoryEngine)) = [] \<and>
   filter (\<lambda>i. conversation_id i = ''s1'')
      (interactions (fst (ingest_interaction signed_model failing_model 7 8
                            (empty_engine :: unit MemoryEngine) ''s1'' ''user'' ''yes'')))
     = [\<lparr>interaction_id = 1, timestamp = 7, role = ''user'', content = ''yes'',
         surprise_score = Fin 1, conversation_id = ''s1''\<rparr>]"
  using calculate_surprise_empty_history
          [of signed_model "''yes''" "''s1''" "empty_engine :: unit MemoryEngine"
              failing_model 7 8 "''user''"]
  by (simp add: empty_engine_def new_rowid_def)

subsection \<open>The Cauchy-Schwarz inequality for lists\<close>

lemma two_dim_cauchy_schwarz:
  fixes x y a b :: real
  shows "(x * y + a * b)\<^sup>2 \<le> (x\<^sup>2 + a\<^sup>2) * (y\<^sup>2 + b\<^sup>2)"
proof -
  have "(x\<^sup>2 + a\<^sup>2) * (y\<^sup>2 + b\<^sup>2) - (x * y + a * b)\<^sup>2 = (x * b - a * y)\<^sup>2"
    by (simp add: power2_eq_square algebra_simps)
  moreover have "0 \<le> (x * b - a * y)\<^sup>2"
    by simp
  ultimately show ?thesis by linarith
qed

lemma sum_squares_nonneg: "0 \<le> sum_list (map (\<lambda>x. x * x) (u::real list))"
  by (rule sum_list_nonneg) auto

lemma dot_squared_le:
  "(dot u v)\<^sup>2 \<le> sum_list (map (\<lambda>x. x * x) u) * sum_list (map (\<lambda>x. x * x) v)"
proof (induction u arbitrary: v)
  case Nil
  show ?case by (simp add: dot_def)
next
  case (Cons x u)
  show ?case
  proof (cases v)
    case Nil
    then show ?thesis by (simp add: dot_def)
  next
    case (Cons y w)
    let ?A = "sum_list (map (\<lambda>x. x * x) u)"
    let ?B = "sum_list (map (\<lambda>x. x * x) w)"
    have A: "0 \<le> ?A" and B: "0 \<le> ?B"
      by (rule sum_squares_nonneg)+
    have IH: "(dot u w)\<^sup>2 \<le> ?A * ?B"
      by (rule Cons.IH)
    have D: "\<bar>dot u w\<bar> \<le> sqrt ?A * sqrt ?B"
      using IH by (metis real_sqrt_mult real_sqrt_abs real_sqrt_le_iff)
    have "\<bar>x * y + dot u w\<bar> \<le> \<bar>x\<bar> * \<bar>y\<bar> + sqrt ?A * sqrt ?B"
      using D by (simp add: abs_mult[symmetric])
    then have "\<bar>x * y + dot u w\<bar> \<le> \<bar>\<bar>x\<bar> * \<bar>y\<bar> + sqrt ?A * sqrt ?B\<bar>"
      by linarith
    then have "(x * y + dot u w)\<^sup>2 \<le> (\<bar>x\<bar> * \<bar>y\<bar> + sqrt ?A * sqrt ?B)\<^sup>2"
      by (simp only: abs_le_square_iff)
    also have "\<dots> \<le> (\<bar>x\<bar>\<^sup>2 + (sqrt ?A)\<^sup>2) * (\<bar>y\<bar>\<^sup>2 + (sqrt ?B)\<^sup>2)"
      by (rule two_dim_cauchy_schwarz)
    also have "\<dots> = (x * x + ?A) * (y * y + ?B)"
      using A B by (simp add: power2_eq_square)
    finally show ?thesis
      using Cons by (simp add: dot_def)
  qed
qed

lemma dot_le_norm2: "\<bar>dot u v\<bar> \<le> norm2 u * norm2 v"
  unfolding norm2_def using dot_squared_le[of u v]
  by (metis real_sqrt_mult real_sqrt_abs real_sqrt_le_iff)


subsection \<open>The side of 1 on which the score lies\<close>














subsection \<open>Zero-norm embeddings\<close>

lemma np_maximum_NaN_right: "np_maximum a NaN = NaN"
  by (cases a) auto

lemma foldl_np_maximum_NaN_acc: "foldl np_maximum NaN bs = NaN"
  by (induction bs) auto

lemma foldl_np_maximum_NaN: "NaN \<in> set bs \<Longrightarrow> foldl np_maximum a bs = NaN"
proof (induction bs arbitrary: a)
  case Nil
  then show ?case by simp
next
  case (Cons b bs)
  show ?case
  proof (cases "b = NaN")
    case True
    then show ?thesis
      by (simp add: np_maximum_NaN_right foldl_np_maximum_NaN_acc)
  next
    case False
    with Cons show ?thesis by simp
  qed
qed

lemma np_max_NaN: "NaN \<in> set bs \<Longrightarrow> np_max bs = Inr NaN"
proof (cases bs)
  case Nil
  assume "NaN \<in> set bs"
  with Nil show ?thesis by simp
next
  case (Cons b bs')
  assume n: "NaN \<in> set bs"
  show ?thesis
  proof (cases "b = NaN")
    case True
    with Cons show ?thesis
      by (simp add: foldl_np_maximum_NaN_acc)
  next
    case False
    with Cons n show ?thesis
      by (simp add: foldl_np_maximum_NaN)
  qed
qed

lemma zero_norm_similarity:
  "norm2 h = 0 \<Longrightarrow> np_divide (dot h n) (norm2 h * norm2 n) = NaN"
  using dot_le_norm2[of h n] by (simp add: np_divide_def)

text \<open>
  Claim C3, as the code has it. \<open>calculate_surprise\<close> excludes no vector from the
  similarity set. A historical embedding of norm zero has similarity \<open>0 / 0\<close>, which is
  \<open>nan\<close>; the maximum propagates it, and the returned score is \<open>nan\<close>, whatever the
  other vectors of the history are.
\<close>

theorem calculate_surprise_zero_norm:
  assumes "model new_content = Some new_embedding"
      and "encode model historical_contents = Some hist_embeddings"
      and "list_all (\<lambda>h. length h = length new_embedding) hist_embeddings"
      and "h \<in> set hist_embeddings" and "norm2 h = 0"
    shows "calculate_surprise model new_content historical_contents = Inr NaN"
proof -
  from assms(2,4) have ne: "historical_contents \<noteq> []"
    by auto
  have "NaN \<in> set (similarities hist_embeddings new_embedding)"
    using assms(4,5) zero_norm_similarity[of h new_embedding]
    by (force simp: similarities_def)
  then have "np_max (similarities hist_embeddings new_embedding) = Inr NaN"
    by (rule np_max_NaN)
  with assms ne show ?thesis
    by (simp add: calculate_surprise_def)
qed

theorem calculate_surprise_zero_norm_witness:
  "signed_model ''yes'' = Some [1] \<and> encode signed_model [''zero'', ''yes''] = Some [[0], [1]] \<and>
   list_all (\<lambda>h. length h = length [1::real]) [[0], [1]] \<and>
   [0] \<in> set [[0], [1::real]] \<and> norm2 [0] = 0 \<and>
   calculate_surprise signed_model ''yes'' [''zero'', ''yes''] = Inr NaN"
proof -
  have a: "signed_model ''yes'' = Some [1]"
    by (simp add: signed_model_def)
  have b: "encode signed_model [''zero'', ''yes''] = Some [[0], [1]]"
    by (simp add: signed_model_def)
  have c: "list_all (\<lambda>h. length h = length [1::real]) [[0], [1]]"
    by simp
  have d: "[0] \<in> set [[0], [1::real]]"
    by simp
  have e: "norm2 [0] = 0"
    by (simp add: norm2_def)
  from a b c d e calculate_surprise_zero_norm[OF a b c d e] show ?thesis
    by simp
qed

text \<open>
  The claim promises the score computed from the remaining vectors: for the history of
  the zero vector and \<open>[1]\<close> and the new vector \<open>[1]\<close> that would be \<open>1 - 1 = 0\<close>, the
  value the code returns for the history without the zero vector. With it the code
  returns \<open>nan\<close>.
\<close>

theorem calculate_surprise_nan:
  "calculate_surprise signed_model ''yes'' [''zero'', ''yes''] = Inr NaN \<and>
   calculate_surprise signed_model ''yes'' [''yes''] = Inr (Fin 0)"
  by (simp add: calculate_surprise_def signed_model_def similarities_def dot_def
        norm2_def np_divide_def)

section \<open>Ingestion\<close>

text \<open>
  Scoring fails on the embedding exactly when there is history and the model raises on
  the content or on a text of the history.
\<close>

lemma np_max_not_embedding_failure: "np_max bs \<noteq> Inl EmbeddingFailure"
  by (cases bs) simp_all

lemma calculate_surprise_embedding_failure_iff:
  "calculate_surprise model cont hist = Inl EmbeddingFailure
     \<longleftrightarrow> hist \<noteq> [] \<and> (model cont = None \<or> encode model hist = None)"
  using np_max_not_embedding_failure
  by (auto simp: calculate_surprise_def split: option.splits sum.splits)

text \<open>
  Claim C1, as the code has it. When an embedding call inside \<open>calculate_surprise\<close>
  raises, \<open>ingest_interaction\<close> fails before the commit and leaves the engine as it was:
  neither store is written. When scoring succeeds and the embedding call of step 4
  raises, the row has already been committed: the interaction is recorded in the
  metadata store with its score, and no row is written to the vector table. With an
  empty history scoring always succeeds, with score 1.0 and without any call of the
  model, so that the call of step 4 is then the only one that can raise. In every case
  of embedding failure the vector table is left as it was.
\<close>

theorem ingest_interaction_embedding_failure:
  "(calculate_surprise model cont (map content (retrieve_episodic eng cid 50)) = Inl EmbeddingFailure \<longrightarrow>
      ingest_interaction model index_model now now' eng cid rl cont = (eng, Inl EmbeddingFailure)) \<and>
   (calculate_surprise model cont (map content (retrieve_episodic eng cid 50)) = Inr score
      \<and> score \<noteq> NaN \<and> index_model cont = None \<longrightarrow>
      ingest_interaction model index_model now now' eng cid rl cont
        = (eng\<lparr>interactions := interactions eng @
             [\<lparr>interaction_id = new_rowid (map interaction_id (interactions eng)),
               timestamp = now, role = rl, content = cont, surprise_score = score,
               conversation_id = cid\<rparr>]\<rparr>,
           Inl EmbeddingFailure)) \<and>
   (retrieve_episodic eng cid 50 = [] \<longrightarrow>
      calculate_surprise model cont (map content (retrieve_episodic eng cid 50)) = Inr (Fin 1)) \<and>
   (snd (ingest_interaction model index_model now now' eng cid rl cont) = Inl EmbeddingFailure \<longrightarrow>
      master_vectors (fst (ingest_interaction model index_model now now' eng cid rl cont))
        = master_vectors eng)"
  by (auto simp: ingest_interaction_def Let_def calculate_surprise_def split: sum.splits option.splits)

theorem ingest_interaction_embedding_failure_witness:
  "calculate_surprise signed_model ''unknown'' (map content (retrieve_episodic one_interaction_engine ''s1'' 50))
     = Inl EmbeddingFailure \<and>
   ingest_interaction signed_model signed_model 7 8 one_interaction_engine ''s1'' ''user'' ''unknown''
     = (one_interaction_engine, Inl EmbeddingFailure) \<and>
   calculate_surprise signed_model ''yes'' (map content (retrieve_episodic one_interaction_engine ''s1'' 50))
     = Inr (Fin 0) \<and> Fin 0 \<noteq> NaN \<and> failing_model ''yes'' = None \<and>
   ingest_interaction signed_model failing_model 7 8 one_interaction_engine ''s1'' ''user'' ''yes''
     = (one_interaction_engine\<lparr>interactions := interactions one_interaction_engine @
          [\<lparr>interaction_id = 2, timestamp = 7, role = ''user'', content = ''yes'',
            surprise_score = Fin 0, conversation_id = ''s1''\<rparr>]\<rparr>,
        Inl EmbeddingFailure)"
proof -
  have a: "calculate_surprise signed_model ''unknown''
             (map content (retrieve_episodic one_interaction_engine ''s1'' 50)) = Inl EmbeddingFailure"
    by (simp add: calculate_surprise_def signed_model_def retrieve_episodic_def
          one_interaction_engine_def)
  have b: "calculate_surprise signed_model ''yes''
             (map content (retrieve_episodic one_interaction_engine ''s1'' 50)) = Inr (Fin 0)"
    by (simp add: calculate_surprise_def signed_model_def retrieve_episodic_def
          one_interaction_engine_def similarities_def dot_def norm2_def np_divide_def)
  have c: "failing_model ''yes'' = None"
    by (simp add: failing_model_def)
  have n: "new_rowid (map interaction_id (interactions one_interaction_engine)) = 2"
    by (simp add: new_rowid_def one_interaction_engine_def)
  from ingest_interaction_embedding_failure
         [where model=signed_model and cont="''unknown''" and eng=one_interaction_engine
            and cid="''s1''" and index_model=signed_model and now=7 and now'=8 and rl="''user''"] a
  have 1: "ingest_interaction signed_model signed_model 7 8 one_interaction_engine ''s1'' ''user'' ''unknown''
     = (one_interaction_engine, Inl EmbeddingFailure)"
    by blast
  from ingest_interaction_embedding_failure
         [where model=signed_model and cont="''yes''" and eng=one_interaction_engine
            and cid="''s1''" and score="Fin 0" and index_model=failing_model and now=7 and now'=8
            and rl="''user''"] b c
  have 2: "ingest_interaction signed_model failing_model 7 8 one_interaction_engine ''s1'' ''user'' ''yes''
     = (one_interaction_engine\<lparr>interactions := interactions one_interaction_engine @
          [\<lparr>interaction_id = 2, timestamp = 7, role = ''user'', content = ''yes'',
            surprise_score = Fin 0, conversation_id = ''s1''\<rparr>]\<rparr>,
        Inl EmbeddingFailure)"
    unfolding n by simp
  from a b c 1 2 show ?thesis by simp
qed

text \<open>
  The claim fails for a conversation without history: the model raises, and the
  interaction is in the metadata store.
\<close>

theorem ingest_interaction_recorded_without_vector:
  "ingest_interaction failing_model failing_model 7 8 (empty_engine :: unit MemoryEngine) ''s1'' ''user'' ''hello''
     = (\<lparr>interactions = [\<lparr>interaction_id = 1, timestamp = 7, role = ''user'',
             content = ''hello'', surprise_score = Fin 1, conversation_id = ''s1''\<rparr>],
         knowledge_nodes = [], knowledge_edges = [], master_vectors = None\<rparr>,
        Inl EmbeddingFailure)"
  by (simp add: ingest_interaction_def retrieve_episodic_def empty_engine_def
        calculate_surprise_def failing_model_def new_rowid_def)

text \<open>A score of \<open>nan\<close> is not stored: the commit raises and nothing is written.\<close>

lemma ingest_interaction_nan:
  "calculate_surprise model cont (map content (retrieve_episodic eng cid 50)) = Inr NaN \<Longrightarrow>
   ingest_interaction model index_model now now' eng cid rl cont = (eng, Inl IntegrityError)"
  by (simp add: ingest_interaction_def Let_def)

section \<open>The knowledge graph: edges\<close>

lemma find_entity_None:
  "find (\<lambda>n. entity n = e) ns = None \<longleftrightarrow> e \<notin> entity ` set ns"
  by (auto simp: find_None_iff)

text \<open>
  Claim C5. When the source entity or the target entity names no node of the table,
  \<open>add_knowledge_edge\<close> raises the \<open>ValueError\<close> for an unknown entity and leaves the
  engine as it was: no edge is created, and every traversal returns what it returned
  before.
\<close>

theorem add_knowledge_edge_unknown_entity:
  "source_entity \<notin> entity ` set (knowledge_nodes eng)
     \<or> target_entity \<notin> entity ` set (knowledge_nodes eng) \<Longrightarrow>
   add_knowledge_edge eng source_entity target_entity rel w
     = (eng, Inl (ValueError ''Source or Target entity not found in Knowledge Graph'')) \<and>
   traverse_graph (fst (add_knowledge_edge eng source_entity target_entity rel w))
       start_entity max_depth
     = traverse_graph eng start_entity max_depth"
  by (auto simp: add_knowledge_edge_def find_entity_None[symmetric] split: option.splits)

theorem add_knowledge_edge_unknown_entity_witness:
  "''Z'' \<notin> entity ` set (knowledge_nodes example_graph) \<and>
   add_knowledge_edge example_graph ''A'' ''Z'' ''knows'' 1
     = (example_graph, Inl (ValueError ''Source or Target entity not found in Knowledge Graph'')) \<and>
   traverse_graph (fst (add_knowledge_edge example_graph ''A'' ''Z'' ''knows'' 1)) ''A'' 5
     = traverse_graph example_graph ''A'' 5"
proof -
  have z: "''Z'' \<notin> entity ` set (knowledge_nodes example_graph)"
    by (simp add: example_graph_def)
  then have "''A'' \<notin> entity ` set (knowledge_nodes example_graph)
               \<or> ''Z'' \<notin> entity ` set (knowledge_nodes example_graph)"
    by simp
  from add_knowledge_edge_unknown_entity[OF this, of "''knows''" 1 "''A''" 5] z
  show ?thesis
    by simp
qed

section \<open>Consolidation\<close>

subsection \<open>What \<open>retrieve_episodic\<close> returns\<close>

lemma retrieve_episodic_set:
  "set (retrieve_episodic eng cid n) \<subseteq> {i \<in> set (interactions eng). conversation_id i = cid}"
  unfolding retrieve_episodic_def by (auto dest: in_set_takeD)

lemma retrieve_episodic_length:
  "length (retrieve_episodic eng cid n)
     = min n (length (filter (\<lambda>i. conversation_id i = cid) (interactions eng)))"
  unfolding retrieve_episodic_def by (simp add: min.commute)

lemma sorted_take_drop:
  assumes "sorted (map f xs)" "x \<in> set (take n xs)" "y \<in> set (drop n xs)"
  shows "f x \<le> f y"
proof -
  have "sorted (map f (take n xs) @ map f (drop n xs))"
    using assms(1) by (simp flip: map_append)
  then show ?thesis
    using assms(2,3) by (auto simp: sorted_append)
qed

text \<open>The rows returned are the most recent ones: a row left out is no newer than any row returned.\<close>

lemma retrieve_episodic_newest:
  assumes "i \<in> set (retrieve_episodic eng cid n)"
      and "j \<in> set (interactions eng)" "conversation_id j = cid"
      and "j \<notin> set (retrieve_episodic eng cid n)"
    shows "timestamp j \<le> timestamp i"
proof -
  let ?s = "sort_key (\<lambda>i. - timestamp i)
              (filter (\<lambda>i. conversation_id i = cid) (interactions eng))"
  have "j \<in> set ?s"
    using assms(2,3) by simp
  then have "j \<in> set (take n ?s) \<union> set (drop n ?s)"
    by (metis append_take_drop_id set_append)
  with assms(4) have "j \<in> set (drop n ?s)"
    by (simp add: retrieve_episodic_def)
  moreover have "sorted (map (\<lambda>i. - timestamp i) ?s)"
    by simp
  ultimately have "- timestamp i \<le> - timestamp j"
    using assms(1) sorted_take_drop[of "\<lambda>i. - timestamp i" ?s i n j]
    by (simp add: retrieve_episodic_def)
  then show ?thesis by simp
qed

lemma retrieve_episodic_sorted:
  "sorted_wrt (\<lambda>a b. timestamp b \<le> timestamp a) (retrieve_episodic eng cid n)"
proof -
  let ?s = "sort_key (\<lambda>i. - timestamp i)
              (filter (\<lambda>i. conversation_id i = cid) (interactions eng))"
  have "sorted (map (\<lambda>i. - timestamp i) ?s)"
    by simp
  then have "sorted_wrt (\<lambda>a b. timestamp b \<le> timestamp a) ?s"
    by (simp add: sorted_map)
  then show ?thesis
    unfolding retrieve_episodic_def by (rule sorted_wrt_take)
qed

subsection \<open>What \<open>prune_interactions\<close> deletes\<close>

lemma filter_by_key:
  assumes "distinct (map f xs)"
  shows "filter (\<lambda>i. f i \<notin> set (map f (filter P xs))) xs = filter (\<lambda>i. \<not> P i) xs"
proof (rule filter_cong[OF refl])
  fix x
  assume x: "x \<in> set xs"
  have inj: "inj_on f (set xs)"
    using assms by (simp add: distinct_map)
  show "(f x \<notin> set (map f (filter P xs))) = (\<not> P x)"
    using x inj by (auto simp: inj_on_def)
qed

lemma prune_interactions_rows:
  assumes "episodic_inv eng"
  shows "interactions (fst (prune_interactions eng cid thr))
     = filter (\<lambda>i. \<not> low_surprise cid thr i) (interactions eng)"
proof (cases "filter (low_surprise cid thr) (interactions eng) = []")
  case True
  then have "filter (\<lambda>i. \<not> low_surprise cid thr i) (interactions eng) = interactions eng"
    by (simp add: filter_empty_conv)
  with True show ?thesis
    by (simp add: prune_interactions_def flip: low_surprise_def)
next
  case False
  have "filter (\<lambda>i. interaction_id i
                  \<notin> set (map interaction_id (filter (low_surprise cid thr) (interactions eng))))
          (interactions eng) = filter (\<lambda>i. \<not> low_surprise cid thr i) (interactions eng)"
    using assms unfolding episodic_inv_def by (rule filter_by_key)
  with False show ?thesis
    by (simp add: prune_interactions_def Let_def flip: low_surprise_def)
qed

lemma prune_interactions_count:
  "snd (prune_interactions eng cid thr) = length (filter (low_surprise cid thr) (interactions eng))"
  by (simp add: prune_interactions_def Let_def flip: low_surprise_def)

lemma prune_interactions_vectors:
  "master_vectors (fst (prune_interactions eng cid thr))
     = map_option (filter (\<lambda>r. row_id r \<notin> interaction_id `
          {i \<in> set (interactions eng). low_surprise cid thr i}))
        (master_vectors eng)"
proof -
  have s: "set (map interaction_id (filter (low_surprise cid thr) (interactions eng)))
             = interaction_id ` {i \<in> set (interactions eng). low_surprise cid thr i}"
    by simp
  show ?thesis
  proof (cases "filter (low_surprise cid thr) (interactions eng) = []")
    case True
    then have e: "interaction_id ` {i \<in> set (interactions eng). low_surprise cid thr i} = {}"
      by (auto simp: filter_empty_conv)
    have "map_option (filter (\<lambda>r. row_id r \<notin> ({}::int set))) (master_vectors eng)
            = master_vectors eng"
      by (cases "master_vectors eng") simp_all
    then have "map_option (filter (\<lambda>r. row_id r
                   \<notin> interaction_id ` {i \<in> set (interactions eng). low_surprise cid thr i}))
                 (master_vectors eng) = master_vectors eng"
      unfolding e .
    with True show ?thesis
      by (simp add: prune_interactions_def flip: low_surprise_def)
  next
    case False
    have "master_vectors (fst (prune_interactions eng cid thr))
            = map_option (filter (\<lambda>r. row_id r
                \<notin> set (map interaction_id (filter (low_surprise cid thr) (interactions eng)))))
              (master_vectors eng)"
      using False
      by (cases "master_vectors eng")
         (simp_all add: prune_interactions_def Let_def flip: low_surprise_def)
    then show ?thesis
      unfolding s .
  qed
qed

lemma not_high_and_low: "float_less (Fin (1/2)) s \<Longrightarrow> \<not> float_less s (Fin (1/10))"
  by (cases s) auto

lemma retrieve_episodic_distinct:
  "episodic_inv eng \<Longrightarrow> distinct (retrieve_episodic eng cid n)"
  unfolding retrieve_episodic_def episodic_inv_def
  by (intro distinct_take) (simp add: distinct_map)

text \<open>
  Claim C4. Let \<open>consolidate_memory\<close> return the engine \<open>eng'\<close>, the promoted rows and the
  count, on an engine whose interaction keys are unique. The rows read are the up to
  100 most recent rows of the conversation: different rows of the conversation, 100 of
  them or all when there are fewer, newest first, and every row of the conversation
  left out is no newer than any row read. The promoted rows are exactly the rows read
  with score above 0.5. The store keeps exactly the rows that are not rows of the
  conversation with score below 0.1, so no such row remains. The count is the number
  of rows removed, which is the number of their keys, and the vector table, when it
  exists, loses exactly the rows with these keys. No promoted row is removed.
\<close>

theorem consolidate_memory_correct:
  assumes "episodic_inv eng"
      and "consolidate_memory eng cid = (eng', promoted, pruned_count)"
    shows "(\<exists>recent.
              recent = retrieve_episodic eng cid 100
            \<and> distinct recent
            \<and> set recent \<subseteq> {i \<in> set (interactions eng). conversation_id i = cid}
            \<and> length recent
                = min 100 (length (filter (\<lambda>i. conversation_id i = cid) (interactions eng)))
            \<and> sorted_wrt (\<lambda>a b. timestamp b \<le> timestamp a) recent
            \<and> (\<forall>i j. i \<in> set recent \<and> j \<in> set (interactions eng) \<and> conversation_id j = cid
                   \<and> j \<notin> set recent \<longrightarrow> timestamp j \<le> timestamp i)
            \<and> promoted = filter (\<lambda>h. float_less (Fin (1/2)) (surprise_score h)) recent)
     \<and> interactions eng'
         = filter (\<lambda>i. \<not> low_surprise cid (Fin (1/10)) i) (interactions eng)
     \<and> pruned_count = length (interactions eng) - length (interactions eng')
     \<and> pruned_count
         = card (interaction_id ` {i \<in> set (interactions eng). low_surprise cid (Fin (1/10)) i})
     \<and> master_vectors eng'
         = map_option (filter (\<lambda>r. row_id r \<notin> interaction_id `
               {i \<in> set (interactions eng). low_surprise cid (Fin (1/10)) i}))
             (master_vectors eng)
     \<and> set promoted \<subseteq> set (interactions eng')"
proof -
  let ?low = "low_surprise cid (Fin (1/10))"
  let ?recent = "retrieve_episodic eng cid 100"
  obtain e n where pr: "prune_interactions eng cid (Fin (1/10)) = (e, n)"
    by (cases "prune_interactions eng cid (Fin (1/10))")
  from assms(2) have e: "eng' = e" and n: "pruned_count = n"
    and p: "promoted = filter (\<lambda>h. float_less (Fin (1/2)) (surprise_score h)) ?recent"
    unfolding consolidate_memory_def Let_def pr by simp_all
  have r1: "distinct ?recent"
    using assms(1) by (rule retrieve_episodic_distinct)
  have r2: "set ?recent \<subseteq> {i \<in> set (interactions eng). conversation_id i = cid}"
    by (rule retrieve_episodic_set)
  have r3: "length ?recent
      = min 100 (length (filter (\<lambda>i. conversation_id i = cid) (interactions eng)))"
    by (rule retrieve_episodic_length)
  have r4: "sorted_wrt (\<lambda>a b. timestamp b \<le> timestamp a) ?recent"
    by (rule retrieve_episodic_sorted)
  have r5: "\<forall>i j. i \<in> set ?recent \<and> j \<in> set (interactions eng) \<and> conversation_id j = cid
                   \<and> j \<notin> set ?recent \<longrightarrow> timestamp j \<le> timestamp i"
    using retrieve_episodic_newest[of _ eng cid 100] by blast
  have recent: "\<exists>recent.
              recent = retrieve_episodic eng cid 100
            \<and> distinct recent
            \<and> set recent \<subseteq> {i \<in> set (interactions eng). conversation_id i = cid}
            \<and> length recent
                = min 100 (length (filter (\<lambda>i. conversation_id i = cid) (interactions eng)))
            \<and> sorted_wrt (\<lambda>a b. timestamp b \<le> timestamp a) recent
            \<and> (\<forall>i j. i \<in> set recent \<and> j \<in> set (interactions eng) \<and> conversation_id j = cid
                   \<and> j \<notin> set recent \<longrightarrow> timestamp j \<le> timestamp i)
            \<and> promoted = filter (\<lambda>h. float_less (Fin (1/2)) (surprise_score h)) recent"
    using r1 r2 r3 r4 r5 p by blast
  have fst: "fst (prune_interactions eng cid (Fin (1/10))) = eng'"
    and snd: "snd (prune_interactions eng cid (Fin (1/10))) = pruned_count"
    using pr e n by simp_all
  have rows: "interactions eng' = filter (\<lambda>i. \<not> ?low i) (interactions eng)"
    using prune_interactions_rows[OF assms(1), of cid "Fin (1/10)"] unfolding fst .
  have cnt: "pruned_count = length (filter ?low (interactions eng))"
    using prune_interactions_count[of eng cid "Fin (1/10)"] unfolding snd by simp
  have len: "length (filter ?low (interactions eng))
               + length (filter (\<lambda>i. \<not> ?low i) (interactions eng))
             = length (interactions eng)"
    by (rule sum_length_filter_compl)
  have diff: "pruned_count = length (interactions eng) - length (interactions eng')"
    using cnt len rows by simp
  have inj: "inj_on interaction_id (set (interactions eng))"
    and dist: "distinct (interactions eng)"
    using assms(1) by (auto simp: episodic_inv_def distinct_map)
  have "card (interaction_id ` {i \<in> set (interactions eng). ?low i})
          = card {i \<in> set (interactions eng). ?low i}"
    by (rule card_image) (rule inj_on_subset[OF inj], blast)
  also have "\<dots> = card (set (filter ?low (interactions eng)))"
    by simp
  also have "\<dots> = length (filter ?low (interactions eng))"
    using dist by (intro distinct_card distinct_filter)
  finally have card: "pruned_count
      = card (interaction_id ` {i \<in> set (interactions eng). ?low i})"
    using cnt by simp
  have vec: "master_vectors eng'
      = map_option (filter (\<lambda>r. row_id r \<notin> interaction_id `
            {i \<in> set (interactions eng). ?low i})) (master_vectors eng)"
    using prune_interactions_vectors[of eng cid "Fin (1/10)"] unfolding fst .
  have sub: "set promoted \<subseteq> set (interactions eng')"
  proof
    fix x
    assume "x \<in> set promoted"
    then have h: "float_less (Fin (1/2)) (surprise_score x)"
      and r: "x \<in> set (retrieve_episodic eng cid 100)"
      unfolding p by simp_all
    from r retrieve_episodic_set[of eng cid 100] have "x \<in> set (interactions eng)"
      by blast
    moreover from h have "\<not> ?low x"
      unfolding low_surprise_def using not_high_and_low by blast
    ultimately show "x \<in> set (interactions eng')"
      unfolding rows by simp
  qed
  from recent rows diff card vec sub show ?thesis
    by (intro conjI)
qed

theorem consolidate_memory_correct_witness:
  "episodic_inv consolidation_engine \<and>
   consolidate_memory consolidation_engine ''s1'' = (consolidated_engine, promoted_rows, 1) \<and>
   interactions consolidated_engine
     = filter (\<lambda>i. \<not> low_surprise ''s1'' (Fin (1/10)) i) (interactions consolidation_engine) \<and>
   (1::nat) = length (interactions consolidation_engine) - length (interactions consolidated_engine) \<and>
   set promoted_rows \<subseteq> set (interactions consolidated_engine)"
proof -
  have a: "episodic_inv consolidation_engine"
    by (simp add: episodic_inv_def consolidation_engine_def)
  have b: "consolidate_memory consolidation_engine ''s1''
     = (consolidated_engine, promoted_rows, 1)"
    by (simp add: consolidation_engine_def consolidated_engine_def promoted_rows_def
          consolidate_memory_def retrieve_episodic_def prune_interactions_def Let_def)
  from consolidate_memory_correct[OF a b] a b show ?thesis
    by blast
qed

section \<open>The knowledge graph: nodes\<close>

lemma find_entity_Some:
  "find (\<lambda>n. entity n = e) ns = Some x \<Longrightarrow> x \<in> set ns \<and> entity x = e"
  by (induction ns) (auto split: if_splits)

lemma filter_unique:
  assumes "distinct (map f xs)" "x \<in> set xs"
  shows "filter (\<lambda>n. f n = f x) xs = [x]"
  using assms
proof (induction xs)
  case Nil
  then show ?case by simp
next
  case (Cons a xs)
  show ?case
  proof (cases "a = x")
    case True
    with Cons.prems have "\<forall>n \<in> set xs. f n \<noteq> f x"
      by (force simp: image_iff)
    then have "filter (\<lambda>n. f n = f x) xs = []"
      by (simp add: filter_empty_conv)
    with True show ?thesis by simp
  next
    case False
    with Cons.prems have "x \<in> set xs" "f a \<noteq> f x"
      by auto
    with Cons show ?thesis by simp
  qed
qed

text \<open>What \<open>add_knowledge_node\<close> does for an entity that has a node: the source against the specification.\<close>

lemma add_knowledge_node_existing:
  assumes "find (\<lambda>n. entity n = ent) (knowledge_nodes eng) = Some old"
  shows "add_knowledge_node eng ent desc data
     = (eng\<lparr>knowledge_nodes :=
              map (\<lambda>n. if node_id n = node_id old then spec_merged_node old desc data else n)
                  (knowledge_nodes eng)\<rparr>,
        node_id old)"
proof -
  have m: "(case data of
              None \<Rightarrow> old\<lparr>description := description old @ separator @ desc\<rparr>
            | Some d \<Rightarrow>
                if d = Map.empty then old\<lparr>description := description old @ separator @ desc\<rparr>
                else old\<lparr>description := description old @ separator @ desc,
                         node_data := node_data old ++ d\<rparr>)
         = spec_merged_node old desc data"
    by (cases data)
       (auto simp: spec_merged_node_def map_add_def fun_eq_iff split: option.splits)
  show ?thesis
    using assms unfolding add_knowledge_node_def Let_def by (simp add: m)
qed

text \<open>
  Claim C6. Let the entity have a node \<open>old\<close> in a table with unique keys and unique
  entity names. After another \<open>add_knowledge_node\<close> for the entity, the table has exactly
  one node for it, the node of the specification: the description is the old
  description, the separator and the new description, and every attribute has the new
  value where the new dictionary defines the key and the old value elsewhere. The
  call returns the key of the old node and leaves the nodes of other entities as they
  were.
\<close>

theorem add_knowledge_node_merges:
  assumes "graph_inv eng"
      and "find (\<lambda>n. entity n = ent) (knowledge_nodes eng) = Some old"
    shows "filter (\<lambda>n. entity n = ent)
             (knowledge_nodes (fst (add_knowledge_node eng ent desc data)))
           = [spec_merged_node old desc data]
       \<and> snd (add_knowledge_node eng ent desc data) = node_id old
       \<and> filter (\<lambda>n. entity n \<noteq> ent)
             (knowledge_nodes (fst (add_knowledge_node eng ent desc data)))
           = filter (\<lambda>n. entity n \<noteq> ent) (knowledge_nodes eng)"
proof -
  let ?m = "spec_merged_node old desc data"
  let ?u = "\<lambda>n. if node_id n = node_id old then ?m else n"
  from assms(2) have old: "old \<in> set (knowledge_nodes eng)" "entity old = ent"
    using find_entity_Some by fastforce+
  have did: "distinct (map node_id (knowledge_nodes eng))"
    and dent: "distinct (map entity (knowledge_nodes eng))"
    using assms(1) by (simp_all add: graph_inv_def)
  have same: "node_id n = node_id old \<longleftrightarrow> n = old" if "n \<in> set (knowledge_nodes eng)" for n
    using did old(1) that by (auto simp: distinct_map inj_on_def)
  have samee: "entity n = ent \<longleftrightarrow> n = old" if "n \<in> set (knowledge_nodes eng)" for n
    using dent old that by (auto simp: distinct_map inj_on_def)
  have ment: "entity ?m = ent"
    using old(2) by (simp add: spec_merged_node_def)
  have ue: "entity (?u n) = entity n" if "n \<in> set (knowledge_nodes eng)" for n
    using that same[OF that] ment old(2) by auto
  have f1: "filter (\<lambda>n. entity n = ent) (map ?u (knowledge_nodes eng))
        = map ?u (filter (\<lambda>n. entity n = ent) (knowledge_nodes eng))"
    unfolding filter_map
    by (rule arg_cong[where f="map ?u"], rule filter_cong[OF refl]) (simp add: ue)
  have "filter (\<lambda>n. entity n = entity old) (knowledge_nodes eng) = [old]"
    using dent old(1) by (rule filter_unique)
  then have f2: "filter (\<lambda>n. entity n = ent) (knowledge_nodes eng) = [old]"
    using old(2) by simp
  have f3: "filter (\<lambda>n. entity n \<noteq> ent) (map ?u (knowledge_nodes eng))
        = map ?u (filter (\<lambda>n. entity n \<noteq> ent) (knowledge_nodes eng))"
    unfolding filter_map
    by (rule arg_cong[where f="map ?u"], rule filter_cong[OF refl]) (simp add: ue)
  have f4: "map ?u (filter (\<lambda>n. entity n \<noteq> ent) (knowledge_nodes eng))
        = filter (\<lambda>n. entity n \<noteq> ent) (knowledge_nodes eng)"
    by (rule map_idI) (use same samee in auto)
  show ?thesis
    unfolding add_knowledge_node_existing[OF assms(2)] by (simp add: f1 f2 f3 f4)
qed

theorem add_knowledge_node_merges_witness:
  "graph_inv one_node_engine \<and>
   find (\<lambda>n. entity n = ''X'') (knowledge_nodes one_node_engine) = Some node_X \<and>
   filter (\<lambda>n. entity n = ''X'')
      (knowledge_nodes (fst (add_knowledge_node one_node_engine ''X'' ''second'' (Some new_data))))
     = [spec_merged_node node_X ''second'' (Some new_data)] \<and>
   description (spec_merged_node node_X ''second'' (Some new_data))
     = ''first'' @ separator @ ''second'' \<and>
   node_data (spec_merged_node node_X ''second'' (Some new_data)) ''colour'' = Some 2 \<and>
   node_data (spec_merged_node node_X ''second'' (Some new_data)) ''size'' = Some 5 \<and>
   node_data (spec_merged_node node_X ''second'' (Some new_data)) ''shape'' = Some 3"
proof -
  have a: "graph_inv one_node_engine"
    by (simp add: graph_inv_def one_node_engine_def)
  have b: "find (\<lambda>n. entity n = ''X'') (knowledge_nodes one_node_engine) = Some node_X"
    by (simp add: one_node_engine_def node_X_def)
  have c: "description (spec_merged_node node_X ''second'' (Some new_data))
             = ''first'' @ separator @ ''second''"
    by (simp add: spec_merged_node_def node_X_def)
  have d: "node_data (spec_merged_node node_X ''second'' (Some new_data)) ''colour'' = Some 2"
    "node_data (spec_merged_node node_X ''second'' (Some new_data)) ''size'' = Some 5"
    "node_data (spec_merged_node node_X ''second'' (Some new_data)) ''shape'' = Some 3"
    by (simp_all add: spec_merged_node_def node_X_def new_data_def)
  from add_knowledge_node_merges[OF a b, of "''second''" "Some new_data"] a b c d
  show ?thesis
    by blast
qed

subsection \<open>The invariant of the node table is kept\<close>

lemma fold_max_upper:
  fixes a :: int
  shows "a \<le> fold max ids a \<and> (\<forall>x \<in> set ids. x \<le> fold max ids a)"
proof (induction ids arbitrary: a)
  case Nil
  show ?case by simp
next
  case (Cons b ids)
  from Cons[of "max b a"] have 1: "max b a \<le> fold max ids (max b a)"
    and 2: "\<forall>x \<in> set ids. x \<le> fold max ids (max b a)"
    by simp_all
  from 1 have "a \<le> fold max ids (max b a)" "b \<le> fold max ids (max b a)"
    by simp_all
  with 2 show ?case by simp
qed

lemma new_rowid_fresh: "new_rowid ids \<notin> set ids"
proof
  assume "new_rowid ids \<in> set ids"
  with fold_max_upper[of 0 ids] have "new_rowid ids \<le> fold max ids 0"
    by blast
  then show False
    by (simp add: new_rowid_def)
qed

lemma graph_inv_empty: "graph_inv empty_engine"
  by (simp add: graph_inv_def empty_engine_def)

lemma graph_inv_add_knowledge_node:
  assumes "graph_inv eng"
  shows "graph_inv (fst (add_knowledge_node eng ent desc data))"
proof (cases "find (\<lambda>n. entity n = ent) (knowledge_nodes eng)")
  case None
  then have "ent \<notin> entity ` set (knowledge_nodes eng)"
    by (auto simp: find_None_iff)
  moreover have "new_rowid (map node_id (knowledge_nodes eng))
                   \<notin> set (map node_id (knowledge_nodes eng))"
    by (rule new_rowid_fresh)
  ultimately show ?thesis
    using assms None by (simp add: add_knowledge_node_def graph_inv_def Let_def)
next
  case (Some old)
  let ?u = "\<lambda>n. if node_id n = node_id old then spec_merged_node old desc data else n"
  from Some have old: "old \<in> set (knowledge_nodes eng)"
    using find_entity_Some by fastforce
  have did: "distinct (map node_id (knowledge_nodes eng))"
    using assms by (simp add: graph_inv_def)
  have same: "node_id n = node_id old \<longleftrightarrow> n = old" if "n \<in> set (knowledge_nodes eng)" for n
    using did old that by (auto simp: distinct_map inj_on_def)
  have i: "map node_id (map ?u (knowledge_nodes eng)) = map node_id (knowledge_nodes eng)"
    by (simp add: spec_merged_node_def comp_def)
  have e: "map entity (map ?u (knowledge_nodes eng)) = map entity (knowledge_nodes eng)"
    unfolding map_map
    by (rule map_cong[OF refl]) (use same in \<open>auto simp: spec_merged_node_def\<close>)
  have n: "knowledge_nodes (fst (add_knowledge_node eng ent desc data))
             = map ?u (knowledge_nodes eng)"
    by (simp add: add_knowledge_node_existing[OF Some])
  show ?thesis
    using assms unfolding graph_inv_def n i e .
qed

lemma graph_inv_add_knowledge_edge:
  "graph_inv eng \<Longrightarrow> graph_inv (fst (add_knowledge_edge eng s t rel w))"
  by (auto simp: add_knowledge_edge_def graph_inv_def Let_def split: option.splits)

lemma graph_inv_ingest_interaction:
  "graph_inv eng \<Longrightarrow> graph_inv (fst (ingest_interaction model index_model now now' eng cid rl cont))"
  by (auto simp: ingest_interaction_def graph_inv_def Let_def split: sum.splits option.splits)

lemma graph_inv_prune_interactions:
  "graph_inv eng \<Longrightarrow> graph_inv (fst (prune_interactions eng cid thr))"
  by (auto simp: prune_interactions_def graph_inv_def Let_def)

lemma episodic_inv_ingest_interaction:
  assumes "episodic_inv eng"
  shows "episodic_inv (fst (ingest_interaction model index_model now now' eng cid rl cont))"
proof -
  have "new_rowid (map interaction_id (interactions eng))
          \<notin> set (map interaction_id (interactions eng))"
    by (rule new_rowid_fresh)
  with assms show ?thesis
    by (auto simp: ingest_interaction_def episodic_inv_def Let_def
             split: sum.splits option.splits)
qed

section \<open>The knowledge graph: traversal\<close>

subsection \<open>The invariant of the traversal loop\<close>

lemma expand_edges_inv:
  assumes "graph_inv eng"
  shows "traversal_inv eng seed vis res \<Longrightarrow>
         expand_edges eng cur d es (vis, res, q) = (vis', res', q') \<Longrightarrow>
         traversal_inv eng seed vis' res'"
proof (induction es arbitrary: vis res q)
  case Nil
  then show ?case by simp
next
  case (Cons e es)
  show ?case
  proof (cases "find (\<lambda>n. node_id n = target_id e) (knowledge_nodes eng)")
    case None
    with Cons show ?thesis by simp
  next
    case (Some t)
    show ?thesis
    proof (cases "node_id t \<in> vis")
      case True
      with Some Cons show ?thesis by simp
    next
      case False
      let ?r = "\<lparr>step_source = entity cur, step_relationship = relationship e,
                 step_target = entity t, step_description = description t\<rparr>"
      have tin: "t \<in> set (knowledge_nodes eng)"
        using find_node_id[OF Some] by simp
      have inj: "inj_on entity (set (knowledge_nodes eng))"
        using assms by (simp add: graph_inv_def distinct_map)
      from Cons.prems(1) have seed: "seed \<subseteq> vis"
        and dis: "distinct (map step_target res)"
        and sub: "set (map step_target res)
                    \<subseteq> entity ` {n \<in> set (knowledge_nodes eng). node_id n \<in> vis - seed}"
        by (simp_all add: traversal_inv_def)
      have new: "entity t \<notin> set (map step_target res)"
      proof
        assume "entity t \<in> set (map step_target res)"
        with sub obtain n where n: "n \<in> set (knowledge_nodes eng)" "node_id n \<in> vis" "entity n = entity t"
          by auto
        with inj tin have "n = t" by (auto simp: inj_on_def)
        with n(2) False show False by simp
      qed
      have "traversal_inv eng seed (insert (node_id t) vis) (res @ [?r])"
        unfolding traversal_inv_def
      proof (intro conjI)
        show "seed \<subseteq> insert (node_id t) vis" using seed by auto
        show "distinct (map step_target (res @ [?r]))" using dis new by simp
        have "entity t \<in> entity ` {n \<in> set (knowledge_nodes eng). node_id n \<in> insert (node_id t) vis - seed}"
          using tin False seed by auto
        moreover have "entity ` {n \<in> set (knowledge_nodes eng). node_id n \<in> vis - seed}
              \<subseteq> entity ` {n \<in> set (knowledge_nodes eng). node_id n \<in> insert (node_id t) vis - seed}"
          by auto
        ultimately show "set (map step_target (res @ [?r]))
              \<subseteq> entity ` {n \<in> set (knowledge_nodes eng). node_id n \<in> insert (node_id t) vis - seed}"
          using sub by auto
      qed
      moreover from Cons.prems(2) Some False have
        "expand_edges eng cur d es (insert (node_id t) vis, res @ [?r], q @ [(t, d + 1)]) = (vis', res', q')"
        by simp
      ultimately show ?thesis by (rule Cons.IH)
    qed
  qed
qed

lemma traverse_loop_inv:
  "graph_inv eng \<Longrightarrow> traversal_inv eng seed vis res \<Longrightarrow>
   \<exists>vis'. traversal_inv eng seed vis' (traverse_loop eng max_depth vis res q)"
proof (induction eng max_depth vis res q rule: traverse_loop.induct)
  case (1 eng max_depth visited results)
  then show ?case by auto
next
  case (2 eng max_depth visited results current_node depth queue)
  show ?case
  proof (cases "max_depth \<le> depth")
    case True
    with 2 show ?thesis by simp
  next
    case False
    let ?edges = "filter (\<lambda>e. source_id e = node_id current_node) (knowledge_edges eng)"
    obtain v r q' where ex: "expand_edges eng current_node depth ?edges (visited, results, queue) = (v, r, q')"
      by (cases "expand_edges eng current_node depth ?edges (visited, results, queue)")
    have "traversal_inv eng seed v r"
      using expand_edges_inv[OF "2.prems"(1) "2.prems"(2) ex] .
    from "2.IH"(2)[OF False refl ex[symmetric] refl "2.prems"(1) this]
    show ?thesis using False ex by simp
  qed
qed

lemma traverse_graph_targets:
  assumes "graph_inv eng"
  shows "distinct (start_entity # map step_target (traverse_graph eng start_entity max_depth))"
proof (cases "find (\<lambda>n. entity n = start_entity) (knowledge_nodes eng)")
  case None
  then show ?thesis by (simp add: traverse_graph_def)
next
  case (Some start_node)
  let ?R = "traverse_loop eng max_depth {node_id start_node} [] [(start_node, 0)]"
  have st: "start_node \<in> set (knowledge_nodes eng)" "entity start_node = start_entity"
    using find_entity_Some[OF Some] by simp_all
  have inj: "inj_on entity (set (knowledge_nodes eng))"
    using assms by (simp add: graph_inv_def distinct_map)
  have "traversal_inv eng {node_id start_node} {node_id start_node} []"
    by (simp add: traversal_inv_def)
  from traverse_loop_inv[OF assms this] obtain vis' where
    inv: "traversal_inv eng {node_id start_node} vis' ?R" by blast
  then have dis: "distinct (map step_target ?R)"
    and sub: "set (map step_target ?R)
        \<subseteq> entity ` {n \<in> set (knowledge_nodes eng). node_id n \<in> vis' - {node_id start_node}}"
    by (simp_all add: traversal_inv_def)
  have "start_entity \<notin> set (map step_target ?R)"
  proof
    assume "start_entity \<in> set (map step_target ?R)"
    with sub obtain n where n: "n \<in> set (knowledge_nodes eng)" "node_id n \<noteq> node_id start_node"
        "entity n = start_entity"
      by auto
    with inj st have "n = start_node" by (auto simp: inj_on_def)
    with n(2) show False by simp
  qed
  with dis Some show ?thesis by (simp add: traverse_graph_def)
qed

lemma distinct_map_filter_le_1:
  "distinct (map f xs) \<Longrightarrow> length (filter (\<lambda>x. f x = t) xs) \<le> 1"
  by (induction xs) (auto simp: filter_empty_conv image_iff)

text \<open>
  Claim C7. The loop of \<open>traverse_graph\<close> terminates from every loop state, for every
  engine (its tables are finite lists, cyclic or not) and every \<open>max_depth\<close>: every
  argument is in the domain of the recursion. For an entity that names no node the
  result is the empty list. In a table with unique keys and unique entity names, the
  start node and the targets of the result are pairwise different nodes: these are the
  nodes that the loop marks as visited and puts on the queue, so no node is visited
  twice and the start node is never visited again.
\<close>

theorem traverse_graph_terminates_visits_once:
  "traverse_loop_dom (eng, max_depth, visited, results, queue) \<and>
   (start_entity \<notin> entity ` set (knowledge_nodes eng) \<longrightarrow>
      traverse_graph eng start_entity max_depth = []) \<and>
   (graph_inv eng \<longrightarrow>
      distinct (start_entity # map step_target (traverse_graph eng start_entity max_depth)))"
proof (intro conjI impI)
  show "traverse_loop_dom (eng, max_depth, visited, results, queue)"
    by (rule spec[OF traverse_loop_total])
next
  assume "start_entity \<notin> entity ` set (knowledge_nodes eng)"
  then have "find (\<lambda>n. entity n = start_entity) (knowledge_nodes eng) = None"
    by (auto simp: find_None_iff)
  then show "traverse_graph eng start_entity max_depth = []"
    by (simp add: traverse_graph_def)
next
  assume "graph_inv eng"
  then show "distinct (start_entity # map step_target (traverse_graph eng start_entity max_depth))"
    by (rule traverse_graph_targets)
qed

theorem traverse_graph_terminates_visits_once_witness:
  "''Z'' \<notin> entity ` set (knowledge_nodes example_graph) \<and>
   traverse_graph example_graph ''Z'' 5 = [] \<and>
   graph_inv example_graph \<and>
   traverse_graph example_graph ''A'' 5
     = [\<lparr>step_source = ''A'', step_relationship = ''r1'', step_target = ''B'',
         step_description = ''second''\<rparr>,
        \<lparr>step_source = ''A'', step_relationship = ''r3'', step_target = ''C'',
         step_description = ''third''\<rparr>] \<and>
   distinct (''A'' # map step_target (traverse_graph example_graph ''A'' 5))"
proof -
  have z: "''Z'' \<notin> entity ` set (knowledge_nodes example_graph)"
    by (simp add: example_graph_def)
  have g: "graph_inv example_graph"
    by (simp add: graph_inv_def example_graph_def)
  have r: "traverse_graph example_graph ''A'' 5
     = [\<lparr>step_source = ''A'', step_relationship = ''r1'', step_target = ''B'',
         step_description = ''second''\<rparr>,
        \<lparr>step_source = ''A'', step_relationship = ''r3'', step_target = ''C'',
         step_description = ''third''\<rparr>]"
    by (simp add: traverse_graph_def example_graph_def)
  from traverse_graph_terminates_visits_once[of example_graph 5 "{}" "[]" "[]" "''Z''"] z
  have e: "traverse_graph example_graph ''Z'' 5 = []"
    by blast
  from traverse_graph_terminates_visits_once[of example_graph 5 "{}" "[]" "[]" "''A''"] g
  have d: "distinct (''A'' # map step_target (traverse_graph example_graph ''A'' 5))"
    by blast
  from z e g r d show ?thesis
    by blast
qed

subsection \<open>The loop against the breadth-first order of the specification\<close>

lemma map_filter_cong_set:
  "(\<And>x. x \<in> set xs \<Longrightarrow> f x = g x) \<Longrightarrow> List.map_filter f xs = List.map_filter g xs"
  by (induction xs) (auto split: option.splits)

lemma map_filter_map_comp: "List.map_filter f (map g xs) = List.map_filter (f \<circ> g) xs"
  by (induction xs) (auto split: option.splits)

text \<open>The first edges, edge by edge.\<close>

lemma spec_first_edges_Nil: "spec_first_edges eng seen [] = []"
  by (simp add: spec_first_edges_def)

lemma upt_Suc_shift: "[0..<Suc n] = 0 # map Suc [0..<n]"
  by (simp add: upt_conv_Cons map_Suc_upt del: upt_Suc)

lemma spec_first_edges_Cons:
  "spec_first_edges eng seen ((s, e) # rest) =
     (case find (\<lambda>n. node_id n = target_id e) (knowledge_nodes eng) of
        None \<Rightarrow> spec_first_edges eng seen rest
      | Some t \<Rightarrow>
          if node_id t \<in> seen then spec_first_edges eng seen rest
          else (s, e, t) # spec_first_edges eng (insert (node_id t) seen) rest)"
proof -
  let ?f = "\<lambda>sn xs i. case find (\<lambda>n. node_id n = target_id (snd (xs ! i))) (knowledge_nodes eng) of
               None \<Rightarrow> None
             | Some t \<Rightarrow>
                 if node_id t \<in> sn
                    \<or> target_id (snd (xs ! i)) \<in> set (map (target_id \<circ> snd) (take i xs))
                 then None
                 else Some (fst (xs ! i), snd (xs ! i), t)"
  have unfold: "spec_first_edges eng seen ((s, e) # rest)
      = (case ?f seen ((s, e) # rest) 0 of
           None \<Rightarrow> List.map_filter (?f seen ((s, e) # rest) \<circ> Suc) [0..<length rest]
         | Some y \<Rightarrow> y # List.map_filter (?f seen ((s, e) # rest) \<circ> Suc) [0..<length rest])"
    unfolding spec_first_edges_def length_Cons upt_Suc_shift
    by (simp only: map_filter_simps map_filter_map_comp)
  show ?thesis
  proof (cases "find (\<lambda>n. node_id n = target_id e) (knowledge_nodes eng)")
    case None
    have "List.map_filter (?f seen ((s, e) # rest) \<circ> Suc) [0..<length rest]
            = List.map_filter (?f seen rest) [0..<length rest]"
    proof (rule map_filter_cong_set)
      fix i assume "i \<in> set [0..<length rest]"
      show "(?f seen ((s, e) # rest) \<circ> Suc) i = ?f seen rest i"
        using None by (auto split: option.splits)
    qed
    with None unfold show ?thesis
      by (simp add: spec_first_edges_def)
  next
    case (Some t)
    have t: "node_id t = target_id e"
      using find_node_id[OF Some] by simp
    show ?thesis
    proof (cases "node_id t \<in> seen")
      case True
      have "List.map_filter (?f seen ((s, e) # rest) \<circ> Suc) [0..<length rest]
              = List.map_filter (?f seen rest) [0..<length rest]"
      proof (rule map_filter_cong_set)
        fix i assume "i \<in> set [0..<length rest]"
        show "(?f seen ((s, e) # rest) \<circ> Suc) i = ?f seen rest i"
          using Some True t by (auto split: option.splits dest: find_node_id)
      qed
      with Some True unfold show ?thesis
        by (simp add: spec_first_edges_def)
    next
      case False
      have "List.map_filter (?f seen ((s, e) # rest) \<circ> Suc) [0..<length rest]
              = List.map_filter (?f (insert (node_id t) seen) rest) [0..<length rest]"
      proof (rule map_filter_cong_set)
        fix i assume "i \<in> set [0..<length rest]"
        show "(?f seen ((s, e) # rest) \<circ> Suc) i = ?f (insert (node_id t) seen) rest i"
          using Some False t by (auto split: option.splits dest: find_node_id)
      qed
      with Some False unfold show ?thesis
        by (simp add: spec_first_edges_def)
    qed
  qed
qed


lemma spec_first_edges_append:
  "spec_first_edges eng seen (xs @ ys)
     = spec_first_edges eng seen xs
       @ spec_first_edges eng (seen \<union> node_id ` set (reached (spec_first_edges eng seen xs))) ys"
proof (induction xs arbitrary: seen)
  case Nil
  show ?case by (simp add: spec_first_edges_Nil reached_def)
next
  case (Cons x xs)
  obtain s e where x: "x = (s, e)" by (cases x)
  show ?case
  proof (cases "find (\<lambda>n. node_id n = target_id e) (knowledge_nodes eng)")
    case None
    with Cons[of seen] show ?thesis
      by (simp add: x spec_first_edges_Cons)
  next
    case (Some t)
    show ?thesis
    proof (cases "node_id t \<in> seen")
      case True
      with Some Cons[of seen] show ?thesis
        by (simp add: x spec_first_edges_Cons)
    next
      case False
      have "insert (node_id t) seen
              \<union> node_id ` set (reached (spec_first_edges eng (insert (node_id t) seen) xs))
            = seen \<union> node_id ` set (reached ((s, e, t)
                  # spec_first_edges eng (insert (node_id t) seen) xs))"
        by (auto simp: reached_def)
      with Some False Cons[of "insert (node_id t) seen"] show ?thesis
        by (simp add: x spec_first_edges_Cons)
    qed
  qed
qed

lemma expand_edges_spec:
  "expand_edges eng cur d es (vis, res, q)
     = (let firsts = spec_first_edges eng vis (map (Pair cur) es)
        in (vis \<union> node_id ` set (reached firsts),
            res @ map step_of firsts,
            q @ map (\<lambda>t. (t, d + 1)) (reached firsts)))"
proof (induction es arbitrary: vis res q)
  case Nil
  show ?case by (simp add: spec_first_edges_Nil reached_def)
next
  case (Cons e es)
  show ?case
  proof (cases "find (\<lambda>n. node_id n = target_id e) (knowledge_nodes eng)")
    case None
    with Cons show ?thesis
      by (simp add: spec_first_edges_Cons)
  next
    case (Some t)
    show ?thesis
    proof (cases "node_id t \<in> vis")
      case True
      with Some Cons show ?thesis
        by (simp add: spec_first_edges_Cons)
    next
      case False
      with Some Cons show ?thesis
        by (simp add: spec_first_edges_Cons Let_def reached_def step_of_def)
    qed
  qed
qed

lemma traverse_loop_skip:
  "max_depth \<le> d \<Longrightarrow> traverse_loop eng max_depth vis res (map (\<lambda>n. (n, d)) level) = res"
  by (induction level) simp_all

lemma traverse_loop_level:
  assumes "\<not> max_depth \<le> d"
  shows "traverse_loop eng max_depth vis res
           (map (\<lambda>n. (n, d)) level @ map (\<lambda>n. (n, d + 1)) next_level)
     = (let firsts = spec_first_edges eng vis (spec_encountered eng level)
        in traverse_loop eng max_depth (vis \<union> node_id ` set (reached firsts))
             (res @ map step_of firsts)
             (map (\<lambda>n. (n, d + 1)) (next_level @ reached firsts)))"
proof (induction level arbitrary: vis res next_level)
  case Nil
  show ?case by (simp add: spec_encountered_def spec_first_edges_Nil reached_def)
next
  case (Cons s level)
  let ?k1 = "spec_first_edges eng vis (map (Pair s) (out_edges eng s))"
  let ?vis1 = "vis \<union> node_id ` set (reached ?k1)"
  let ?k2 = "spec_first_edges eng ?vis1 (spec_encountered eng level)"
  have app: "spec_first_edges eng vis (spec_encountered eng (s # level)) = ?k1 @ ?k2"
    by (simp add: spec_encountered_def spec_first_edges_append)
  have "traverse_loop eng max_depth vis res
           (map (\<lambda>n. (n, d)) (s # level) @ map (\<lambda>n. (n, d + 1)) next_level)
      = traverse_loop eng max_depth ?vis1 (res @ map step_of ?k1)
           (map (\<lambda>n. (n, d)) level @ map (\<lambda>n. (n, d + 1)) (next_level @ reached ?k1))"
    using assms by (simp add: expand_edges_spec Let_def out_edges_def)
  also have "\<dots> = traverse_loop eng max_depth (?vis1 \<union> node_id ` set (reached ?k2))
             ((res @ map step_of ?k1) @ map step_of ?k2)
             (map (\<lambda>n. (n, d + 1)) ((next_level @ reached ?k1) @ reached ?k2))"
    using Cons[of ?vis1 "res @ map step_of ?k1" "next_level @ reached ?k1"]
    by (simp add: Let_def)
  also have "\<dots> = (let firsts = spec_first_edges eng vis (spec_encountered eng (s # level))
        in traverse_loop eng max_depth (vis \<union> node_id ` set (reached firsts))
             (res @ map step_of firsts)
             (map (\<lambda>n. (n, d + 1)) (next_level @ reached firsts)))"
    unfolding app Let_def by (simp add: reached_def Un_assoc image_Un)
  finally show ?case .
qed

lemma traverse_loop_spec_levels:
  "traverse_loop eng max_depth vis res (map (\<lambda>n. (n, d)) level)
     = res @ spec_levels eng max_depth d vis level"
proof (induction eng max_depth d vis level arbitrary: res rule: spec_levels.induct)
  case (1 eng max_depth depth seen level)
  show ?case
  proof (cases "max_depth \<le> depth")
    case True
    then show ?thesis
      by (simp add: traverse_loop_skip spec_levels.simps)
  next
    case False
    let ?k = "spec_first_edges eng seen (spec_encountered eng level)"
    have "traverse_loop eng max_depth seen res (map (\<lambda>n. (n, depth)) level)
        = traverse_loop eng max_depth (seen \<union> node_id ` set (reached ?k))
             (res @ map step_of ?k) (map (\<lambda>n. (n, depth + 1)) (reached ?k))"
      using traverse_loop_level[OF False, of eng seen res level "[]"]
      by (simp add: Let_def)
    also have "\<dots> = (res @ map step_of ?k)
          @ spec_levels eng max_depth (depth + 1) (seen \<union> node_id ` set (reached ?k)) (reached ?k)"
      by (rule "1.IH"[OF False refl])
    also have "\<dots> = res @ spec_levels eng max_depth depth seen level"
      using False by (simp add: spec_levels.simps[of eng max_depth depth] Let_def)
    finally show ?thesis .
  qed
qed

lemma traverse_graph_spec:
  "traverse_graph eng start_entity max_depth = spec_traverse eng start_entity max_depth"
proof (cases "find (\<lambda>n. entity n = start_entity) (knowledge_nodes eng)")
  case None
  then show ?thesis
    by (simp add: traverse_graph_def spec_traverse_def)
next
  case (Some start_node)
  have "traverse_loop eng max_depth {node_id start_node} [] (map (\<lambda>n. (n, 0)) [start_node])
          = [] @ spec_levels eng max_depth 0 {node_id start_node} [start_node]"
    by (rule traverse_loop_spec_levels)
  with Some show ?thesis
    by (simp add: traverse_graph_def spec_traverse_def)
qed

lemma spec_traverse_diamond: "spec_traverse diamond_graph ''A'' 5 = diamond_steps"
  by (simp add: spec_traverse_def spec_levels.simps spec_encountered_def out_edges_def
        spec_first_edges_Cons spec_first_edges_Nil reached_def step_of_def
        diamond_graph_def diamond_steps_def)

text \<open>
  Claim C10. The result of \<open>traverse_graph\<close> is the result that the specification
  describes, for every engine, start entity and depth: the steps are those of the
  first edges in breadth-first order, level by level, an edge yielding a step only
  when no edge encountered before it leads to the same node and the node was not seen
  at an earlier level; every other edge is omitted, whatever its label. Hence, in a
  table with unique keys and unique entity names, every entity is the target of at
  most one step.
\<close>

theorem traverse_graph_first_edge_only:
  "traverse_graph eng start_entity max_depth = spec_traverse eng start_entity max_depth \<and>
   (graph_inv eng \<longrightarrow>
      (\<forall>t. length (filter (\<lambda>s. step_target s = t)
                    (traverse_graph eng start_entity max_depth)) \<le> 1))"
proof (intro conjI impI allI)
  show "traverse_graph eng start_entity max_depth = spec_traverse eng start_entity max_depth"
    by (rule traverse_graph_spec)
next
  fix t
  assume "graph_inv eng"
  then have "distinct (map step_target (traverse_graph eng start_entity max_depth))"
    using traverse_graph_targets[of eng start_entity max_depth] by simp
  then show "length (filter (\<lambda>s. step_target s = t)
                      (traverse_graph eng start_entity max_depth)) \<le> 1"
    by (rule distinct_map_filter_le_1)
qed

theorem traverse_graph_first_edge_only_witness:
  "graph_inv diamond_graph \<and>
   traverse_graph diamond_graph ''A'' 5 = diamond_steps \<and>
   spec_traverse diamond_graph ''A'' 5 = diamond_steps \<and>
   filter (\<lambda>s. step_target s = ''D'') (traverse_graph diamond_graph ''A'' 5)
     = [\<lparr>step_source = ''B'', step_relationship = ''bd'', step_target = ''D'',
         step_description = ''d''\<rparr>] \<and>
   filter (\<lambda>s. step_target s = ''B'') (traverse_graph diamond_graph ''A'' 5)
     = [\<lparr>step_source = ''A'', step_relationship = ''ab'', step_target = ''B'',
         step_description = ''b''\<rparr>] \<and>
   length (filter (\<lambda>s. step_target s = ''D'') (traverse_graph diamond_graph ''A'' 5)) \<le> 1"
proof -
  have g: "graph_inv diamond_graph"
    by (simp add: graph_inv_def diamond_graph_def)
  have r: "traverse_graph diamond_graph ''A'' 5 = diamond_steps"
    by (simp add: traverse_graph_def diamond_graph_def diamond_steps_def)
  from traverse_graph_first_edge_only[of diamond_graph "''A''" 5] g r
  have s: "spec_traverse diamond_graph ''A'' 5 = diamond_steps"
    and c: "length (filter (\<lambda>s. step_target s = ''D'') (traverse_graph diamond_graph ''A'' 5)) \<le> 1"
    by simp_all
  have d: "filter (\<lambda>s. step_target s = ''D'') (traverse_graph diamond_graph ''A'' 5)
     = [\<lparr>step_source = ''B'', step_relationship = ''bd'', step_target = ''D'',
         step_description = ''d''\<rparr>]"
    unfolding r by (simp add: diamond_steps_def)
  have b: "filter (\<lambda>s. step_target s = ''B'') (traverse_graph diamond_graph ''A'' 5)
     = [\<lparr>step_source = ''A'', step_relationship = ''ab'', step_target = ''B'',
         step_description = ''b''\<rparr>]"
    unfolding r by (simp add: diamond_steps_def)
  from g r s d b c show ?thesis
    by blast
qed

end
